theory Spec2Isabelle
  imports Complex_Main
begin

section \<open>Data model of \<open>nisl/utils.py\<close>\<close>

text \<open>
  The module works on Python objects of three kinds: path strings, (nested) sequences,
  and arbitrary instances that may or may not carry the two accessor methods
  \<open>get_data\<close> and \<open>get_affine\<close> and a \<open>shape\<close> attribute. Exceptions are values:
  every function that can raise returns \<open>error + 'a\<close>, with \<open>Inl\<close> for the exception.
\<close>

subsection \<open>Exceptions\<close>

datatype exception_class =
  TypeError | ValueError | StopIteration | AttributeError | IOError

type_synonym affine = "rat list list"

text \<open>
  The messages of the \<^verbatim>\<open>raise\<close> statements of the module, with the arguments of
  their format strings. \<open>Builtin\<close> stands for the message of an exception raised by the
  interpreter or by a library (its text is not modelled).
\<close>

datatype message =
    NotNiimg
  | WrongDims string nat
  | AffineMismatch string affine affine
  | NoComponents
  | Builtin

datatype error = Raise exception_class message

subsection \<open>Arrays\<close>

text \<open>
  A numpy array is its shape and its elements in row-major (C) order. A well-formed
  array has as many elements as the product of its shape.
\<close>

record 'a ndarray =
  shape :: "nat list"
  elems :: "'a list"

definition wf_array :: "'a ndarray \<Rightarrow> bool" where
  "wf_array a = (length (elems a) = prod_list (shape a))"

definition ndim :: "'a ndarray \<Rightarrow> nat" where
  "ndim a = length (shape a)"

text \<open>\<^verbatim>\<open>a[..., np.newaxis]\<close>: one more trailing axis of length 1, same elements.\<close>

definition newaxis :: "'a ndarray \<Rightarrow> 'a ndarray" where
  "newaxis a = a\<lparr>shape := shape a @ [1]\<rparr>"

subsection \<open>Python objects\<close>

text \<open>
  An attribute of an instance is absent, present but not callable, or a method; a method
  is modelled by the value it returns.
\<close>

datatype 'a attribute = Absent | Plain | Method 'a

record pyinstance =
  get_data :: "rat ndarray attribute"
  get_affine :: "affine attribute"
  shape_attr :: "nat list option"

datatype pyobj =
    PyStr string
  | PyList "pyobj list"
  | PyObj pyinstance

text \<open>
  \<open>PyStr\<close> is a \<^verbatim>\<open>basestring\<close>; \<open>PyList\<close> is a re-iterable sequence (list, tuple), which
  has \<^verbatim>\<open>__iter__\<close> and none of the accessors; \<open>PyObj\<close> is any other, non-iterable
  instance.
\<close>

fun get_data_attr :: "pyobj \<Rightarrow> rat ndarray attribute" where
  "get_data_attr (PyObj x) = get_data x"
| "get_data_attr _ = Absent"

fun get_affine_attr :: "pyobj \<Rightarrow> affine attribute" where
  "get_affine_attr (PyObj x) = get_affine x"
| "get_affine_attr _ = Absent"

fun get_shape_attr :: "pyobj \<Rightarrow> nat list option" where
  "get_shape_attr (PyObj x) = shape_attr x"
| "get_shape_attr _ = None"

fun callable :: "'a attribute \<Rightarrow> bool" where
  "callable (Method _) = True"
| "callable _ = False"

text \<open>Calling an attribute: \<^verbatim>\<open>obj.name()\<close>.\<close>

fun call :: "'a attribute \<Rightarrow> error + 'a" where
  "call (Method r) = Inr r"
| "call Plain = Inl (Raise TypeError Builtin)"
| "call Absent = Inl (Raise AttributeError Builtin)"

text \<open>\<^verbatim>\<open>nibabel.Nifti1Image(data, affine)\<close>.\<close>

definition Nifti1Image :: "rat ndarray \<Rightarrow> affine \<Rightarrow> pyinstance" where
  "Nifti1Image d a =
     \<lparr>get_data = Method d, get_affine = Method a, shape_attr = Some (shape d)\<rparr>"

text \<open>
  \<^verbatim>\<open>nibabel.load\<close> is the external loader: the files it can read are a partial map from
  paths to the data and affine they hold; it returns an image object or fails.
\<close>

type_synonym filesystem = "string \<Rightarrow> (rat ndarray \<times> affine) option"

definition nibabel_load :: "filesystem \<Rightarrow> string \<Rightarrow> error + pyobj" where
  "nibabel_load fs path =
     (case fs path of
        None \<Rightarrow> Inl (Raise IOError Builtin)
      | Some (d, a) \<Rightarrow> Inr (PyObj (Nifti1Image d a)))"

section \<open>Niimg related operations\<close>

text \<open>
  \<^verbatim>\<open>is_a_niimg\<close>: both \<^verbatim>\<open>getattr\<close> calls are inside the \<^verbatim>\<open>try\<close>; a missing attribute
  gives \<open>False\<close>.
\<close>

definition is_a_niimg :: "pyobj \<Rightarrow> bool" where
  "is_a_niimg object =
     (case get_data_attr object of
        Absent \<Rightarrow> False
      | gd \<Rightarrow> (case get_affine_attr object of
                 Absent \<Rightarrow> False
               | ga \<Rightarrow> callable gd \<and> callable ga))"

text \<open>\<^verbatim>\<open>_get_shape\<close>: the \<open>shape\<close> attribute when there is one, the shape of the data otherwise.\<close>

definition get_shape :: "pyobj \<Rightarrow> error + nat list" where
  "get_shape niimg =
     (case get_shape_attr niimg of
        Some s \<Rightarrow> Inr s
      | None \<Rightarrow> (case call (get_data_attr niimg) of
                   Inl e \<Rightarrow> Inl e
                 | Inr d \<Rightarrow> Inr (shape d)))"

fun check_niimg :: "filesystem \<Rightarrow> pyobj \<Rightarrow> error + pyobj" where
  "check_niimg fs (PyStr path) = nibabel_load fs path"
| "check_niimg fs niimg =
     (if \<not> is_a_niimg niimg then Inl (Raise TypeError NotNiimg) else Inr niimg)"

text \<open>
  \<^verbatim>\<open>iter(x)\<close> on an object: the elements of a sequence, the characters of a string
  (each a string of length one), and a \<open>TypeError\<close> for an instance that is not iterable.
  Sequences are re-iterable: taking the first element does not consume it.
\<close>

fun py_iter :: "pyobj \<Rightarrow> error + pyobj list" where
  "py_iter (PyList xs) = Inr xs"
| "py_iter (PyStr s) = Inr (map (\<lambda>c. PyStr [c]) s)"
| "py_iter (PyObj _) = Inl (Raise TypeError Builtin)"

text \<open>\<^verbatim>\<open>str(index)\<close> for a non-negative integer: its decimal digits.\<close>

definition digit_char :: "nat \<Rightarrow> char" where
  "digit_char d = ''0123456789'' ! d"

function str_nat :: "nat \<Rightarrow> string" where
  "str_nat n =
     (if n < 10 then [digit_char n] else str_nat (n div 10) @ [digit_char (n mod 10)])"
  by pat_completeness auto
termination
  by (relation "measure id") auto

text \<open>\<^verbatim>\<open>np.array_equal\<close> on two affines: same shape and same entries.\<close>

definition array_equal :: "affine \<Rightarrow> affine \<Rightarrow> bool" where
  "array_equal a b = (a = b)"

text \<open>
  \<^verbatim>\<open>np.concatenate(data, axis=-1)\<close>. numpy refuses an empty list, zero-dimensional
  arrays, and arrays whose shapes differ anywhere but on the last axis. The result
  interleaves the rows (the runs along the last axis) of the arrays.
\<close>

definition rows :: "'a ndarray \<Rightarrow> 'a list list" where
  "rows a =
     (let k = last (shape a)
      in map (\<lambda>j. take k (drop (j * k) (elems a))) [0..<prod_list (butlast (shape a))])"

definition np_concatenate_last :: "'a ndarray list \<Rightarrow> error + 'a ndarray" where
  "np_concatenate_last arrays =
     (case arrays of
        [] \<Rightarrow> Inl (Raise ValueError Builtin)
      | a # _ \<Rightarrow>
          if list_ex (\<lambda>b. shape b = []) arrays then Inl (Raise ValueError Builtin)
          else if list_ex (\<lambda>b. butlast (shape b) \<noteq> butlast (shape a)) arrays
          then Inl (Raise ValueError Builtin)
          else Inr \<lparr>shape = butlast (shape a) @ [sum_list (map (\<lambda>b. last (shape b)) arrays)],
                    elems = concat (map (\<lambda>j. concat (map (\<lambda>b. rows b ! j) arrays))
                                        [0..<prod_list (butlast (shape a))])\<rparr>)"

text \<open>
  The loop of \<^verbatim>\<open>concat_niimgs\<close> over \<^verbatim>\<open>enumerate(niimgs)\<close>: \<open>index\<close> is the position of
  the element at hand and \<open>data\<close> the arrays appended so far.
\<close>

fun concat_loop ::
  "filesystem \<Rightarrow> affine \<Rightarrow> nat \<Rightarrow> pyobj list \<Rightarrow> rat ndarray list \<Rightarrow> error + rat ndarray list"
where
  "concat_loop fs affine index [] data = Inr data"
| "concat_loop fs affine index (iter_niimg # rest) data =
     (case check_niimg fs iter_niimg of
        Inl e \<Rightarrow> Inl e
      | Inr niimg \<Rightarrow>
          (case call (get_affine_attr niimg) of
             Inl e \<Rightarrow> Inl e
           | Inr a \<Rightarrow>
               if \<not> array_equal a affine then
                 (let s_error = '''';
                      i_error = (case iter_niimg of
                                   PyStr path \<Rightarrow> ''image '' @ path
                                 | _ \<Rightarrow> ''image #'' @ str_nat index)
                  in Inl (Raise ValueError (AffineMismatch (i_error @ s_error) affine a)))
               else
                 (case call (get_data_attr niimg) of
                    Inl e \<Rightarrow> Inl e
                  | Inr this_data \<Rightarrow>
                      concat_loop fs affine (Suc index) rest
                        (data @ [if length (shape this_data) = 3 then newaxis this_data
                                 else this_data]))))"

definition concat_niimgs :: "filesystem \<Rightarrow> pyobj \<Rightarrow> error + pyobj" where
  "concat_niimgs fs niimgs =
     (case py_iter niimgs of
        Inl e \<Rightarrow> Inl e
      | Inr [] \<Rightarrow> Inl (Raise StopIteration Builtin)
      | Inr (first # rest) \<Rightarrow>
          (case check_niimg fs first of
             Inl e \<Rightarrow> Inl e
           | Inr first_niimg \<Rightarrow>
               (case call (get_affine_attr first_niimg) of
                  Inl e \<Rightarrow> Inl e
                | Inr affine \<Rightarrow>
                    (case concat_loop fs affine 0 (first # rest) [] of
                       Inl e \<Rightarrow> Inl e
                     | Inr data \<Rightarrow>
                         (case np_concatenate_last data of
                            Inl e \<Rightarrow> Inl e
                          | Inr d \<Rightarrow> Inr (PyObj (Nifti1Image d affine)))))))"

text \<open>
  The \<^verbatim>\<open>while\<close> loop of \<^verbatim>\<open>check_niimgs\<close>: as long as the object has \<^verbatim>\<open>__iter__\<close> and is
  not a string, step to its first element and count one level. Python-2 strings have no
  \<^verbatim>\<open>__iter__\<close>. An empty sequence has no first element.
\<close>

fun first_leaf :: "pyobj \<Rightarrow> nat \<Rightarrow> error + (pyobj \<times> nat)" where
  "first_leaf (PyList []) depth = Inl (Raise StopIteration Builtin)"
| "first_leaf (PyList (x # xs)) depth = first_leaf x (Suc depth)"
| "first_leaf first_img depth = Inr (first_img, depth)"

text \<open>\<^verbatim>\<open>isinstance(x, basestring)\<close> and \<^verbatim>\<open>isinstance(x, collections.Iterable)\<close>.\<close>

fun is_basestring :: "pyobj \<Rightarrow> bool" where
  "is_basestring (PyStr _) = True"
| "is_basestring _ = False"

fun is_Iterable :: "pyobj \<Rightarrow> bool" where
  "is_Iterable (PyObj _) = False"
| "is_Iterable _ = True"

definition check_niimgs :: "filesystem \<Rightarrow> pyobj \<Rightarrow> bool \<Rightarrow> error + pyobj" where
  "check_niimgs fs niimgs accept_3d =
     (if accept_3d \<and> (is_basestring niimgs \<or> \<not> is_Iterable niimgs) then
        (case check_niimg fs niimgs of
           Inl e \<Rightarrow> Inl e
         | Inr niimg \<Rightarrow>
             (case get_shape niimg of
                Inl e \<Rightarrow> Inl e
              | Inr s \<Rightarrow>
                  if length s = 3 then
                    (case call (get_data_attr niimg) of
                       Inl e \<Rightarrow> Inl e
                     | Inr d \<Rightarrow>
                         (case call (get_affine_attr niimg) of
                            Inl e \<Rightarrow> Inl e
                          | Inr a \<Rightarrow> Inr (PyObj (Nifti1Image (newaxis d) a))))
                  else Inr niimg))
      else
        (case first_leaf niimgs 0 of
           Inl e \<Rightarrow> Inl e
         | Inr (first_img, depth) \<Rightarrow>
             (case check_niimg fs first_img of
                Inl e \<Rightarrow> Inl e
              | Inr first_img' \<Rightarrow>
                  (case get_shape first_img' of
                     Inl e \<Rightarrow> Inl e
                   | Inr s \<Rightarrow>
                       (let dim = length s in
                        if dim + depth \<noteq> 4 then
                          Inl (Raise TypeError
                                 (WrongDims (concat (replicate depth ''list of '')) dim))
                        else if dim = 4 then check_niimg fs niimgs
                        else concat_niimgs fs niimgs)))))"

section \<open>Operating on connected components\<close>

text \<open>
  \<^verbatim>\<open>scipy.ndimage.label\<close> is an external function: the model takes it as a parameter that
  maps a volume to the array of labels and the number of labels.
\<close>

type_synonym labeller = "bool ndarray \<Rightarrow> nat ndarray \<times> nat"

text \<open>
  \<^verbatim>\<open>np.bincount\<close> of a non-empty array of non-negative integers: the number of occurrences
  of every value from 0 to the largest one.
\<close>

definition np_bincount :: "nat list \<Rightarrow> nat list" where
  "np_bincount xs = map (\<lambda>l. count_list xs l) [0..<Suc (Max (set xs))]"

text \<open>\<^verbatim>\<open>argmax\<close>: the index of the first occurrence of the largest value.\<close>

fun first_index :: "'a \<Rightarrow> 'a list \<Rightarrow> nat" where
  "first_index v [] = 0"
| "first_index v (x # xs) = (if x = v then 0 else Suc (first_index v xs))"

definition np_argmax :: "nat list \<Rightarrow> nat" where
  "np_argmax xs = first_index (Max (set xs)) xs"

text \<open>
  \<^verbatim>\<open>largest_connected_component\<close> on a boolean volume (the documented input), for which
  \<^verbatim>\<open>np.asarray\<close> and \<^verbatim>\<open>astype(np.bool)\<close> change nothing. \<^verbatim>\<open>np.bincount\<close> refuses an empty
  array.
\<close>

definition largest_connected_component :: "labeller \<Rightarrow> bool ndarray \<Rightarrow> error + bool ndarray" where
  "largest_connected_component label volume =
     (case label volume of
        (labels, label_nb) \<Rightarrow>
          if label_nb = 0 then Inl (Raise ValueError NoComponents)
          else if label_nb = 1 then Inr volume
          else if elems labels = [] then Inl (Raise ValueError Builtin)
          else
            (let label_count = (np_bincount (elems labels))[0 := 0]
             in Inr \<lparr>shape = shape labels,
                     elems = map (\<lambda>l. l = np_argmax label_count) (elems labels)\<rparr>))"

subsection \<open>What a labelling is\<close>

text \<open>
  The coordinates of a flat row-major index, and the adjacency of the default structuring
  element of \<^verbatim>\<open>ndimage.label\<close>: two voxels are neighbours when their coordinates differ by
  one along exactly one axis (6-connectivity in 3D).
\<close>

fun unravel_index :: "nat list \<Rightarrow> nat \<Rightarrow> nat list" where
  "unravel_index [] i = []"
| "unravel_index (n # ns) i = (i div prod_list ns) # unravel_index ns (i mod prod_list ns)"

definition neighbours :: "nat list \<Rightarrow> nat \<Rightarrow> nat \<Rightarrow> bool" where
  "neighbours s i j =
     (sum_list (map2 (\<lambda>a b. if a \<le> b then b - a else a - b)
                     (unravel_index s i) (unravel_index s j)) = 1)"

definition foreground :: "bool ndarray \<Rightarrow> nat set" where
  "foreground v = {i. i < length (elems v) \<and> elems v ! i}"

definition connected :: "bool ndarray \<Rightarrow> nat \<Rightarrow> nat \<Rightarrow> bool" where
  "connected v i j =
     ((i, j) \<in> {(a, b). a \<in> foreground v \<and> b \<in> foreground v \<and> neighbours (shape v) a b}\<^sup>*)"

definition component :: "bool ndarray \<Rightarrow> nat \<Rightarrow> nat set" where
  "component v i = {j. j \<in> foreground v \<and> connected v i j}"

text \<open>
  What \<^verbatim>\<open>ndimage.label\<close> returns for a volume: an array of the same shape that is 0 on
  the background and numbers the connected components of the foreground from 1 to
  \<open>label_nb\<close>, every number being used.
\<close>

definition is_labelling :: "bool ndarray \<Rightarrow> nat ndarray \<Rightarrow> nat \<Rightarrow> bool" where
  "is_labelling v labels label_nb =
     (shape labels = shape v \<and> length (elems labels) = length (elems v) \<and>
      (\<forall>i<length (elems v). (elems labels ! i = 0) = (\<not> elems v ! i)) \<and>
      (\<forall>i<length (elems v). elems labels ! i \<le> label_nb) \<and>
      (\<forall>l. 1 \<le> l \<and> l \<le> label_nb \<longrightarrow> (\<exists>i<length (elems v). elems labels ! i = l)) \<and>
      (\<forall>i\<in>foreground v. \<forall>j\<in>foreground v.
         (elems labels ! i = elems labels ! j) = connected v i j))"

section \<open>Masking\<close>

text \<open>
  The module \<^verbatim>\<open>nisl/masking.py\<close> (\<^verbatim>\<open>apply_mask\<close>, \<^verbatim>\<open>unmask\<close>, \<^verbatim>\<open>intersect_masks\<close>) is
  not among the sources; only its tests are. Its three functions are modelled from the
  specification (sections 4.5 and 4.6) and from what \<^verbatim>\<open>test_masking.py\<close> shows of them.
\<close>

text \<open>
  Modelled from the spec: the enumeration of the voxels a mask selects, absent with
  \<^verbatim>\<open>masking.py\<close>. It is the fixed row-major order of the flat indices of the \<open>True\<close>
  entries; \<open>mask_rank\<close> is the position of a selected voxel in it.
\<close>

definition mask_indices :: "bool ndarray \<Rightarrow> nat list" where
  "mask_indices mask_arr = filter (\<lambda>v. elems mask_arr ! v) [0..<length (elems mask_arr)]"

definition mask_rank :: "bool ndarray \<Rightarrow> nat \<Rightarrow> nat" where
  "mask_rank mask_arr v = length (filter (\<lambda>u. elems mask_arr ! u) [0..<v])"

text \<open>
  Modelled from the spec: \<^verbatim>\<open>apply_mask\<close> of the absent \<^verbatim>\<open>masking.py\<close>, without smoothing.
  For data whose last axis is the observation axis and a mask matching the spatial shape,
  the result is the matrix of shape (observation-count, voxel-count) whose row \<open>t\<close> holds
  the values of observation \<open>t\<close> at the selected voxels, in the order of \<open>mask_indices\<close>.
\<close>

definition apply_mask :: "'a ndarray \<Rightarrow> bool ndarray \<Rightarrow> 'a ndarray" where
  "apply_mask niimg mask_arr =
     (let n_obs = last (shape niimg); voxels = mask_indices mask_arr
      in \<lparr>shape = [n_obs, length voxels],
          elems = concat (map (\<lambda>t. map (\<lambda>v. elems niimg ! (v * n_obs + t)) voxels)
                              [0..<n_obs])\<rparr>)"

text \<open>
  Modelled from the spec: \<^verbatim>\<open>unmask\<close> of the absent \<^verbatim>\<open>masking.py\<close>, for one series. It
  fails with \<open>ValueError\<close> when the trailing dimension of the series is not the number of
  foreground voxels of the mask. Otherwise the result has the shape of the mask plus the
  observation axis (no such axis for a series without one; the leading axes of the series
  flattened into one otherwise), each row's values stand at the \<open>True\<close> positions of the
  mask and every other position holds zero.
\<close>

definition unmask :: "'a::zero ndarray \<Rightarrow> bool ndarray \<Rightarrow> error + 'a ndarray" where
  "unmask X mask_arr =
     (let n_voxels = length (mask_indices mask_arr) in
      if shape X = [] \<or> last (shape X) \<noteq> n_voxels then Inl (Raise ValueError Builtin)
      else
        (let obs = butlast (shape X); n_obs = prod_list obs
         in Inr \<lparr>shape = shape mask_arr @ (if obs = [] then [] else [n_obs]),
                 elems = concat (map (\<lambda>v. map (\<lambda>t. if elems mask_arr ! v
                                                        then elems X ! (t * n_voxels + mask_rank mask_arr v)
                                                        else 0)
                                                  [0..<n_obs])
                                     [0..<length (elems mask_arr)])\<rparr>))"

text \<open>The data with every voxel outside the mask set to zero.\<close>

definition zero_outside :: "'a::zero ndarray \<Rightarrow> bool ndarray \<Rightarrow> 'a ndarray" where
  "zero_outside d mask_arr =
     d\<lparr>elems := map (\<lambda>i. if elems mask_arr ! (i div last (shape d)) then elems d ! i else 0)
                     [0..<length (elems d)]\<rparr>"

text \<open>
  Modelled from the spec: \<^verbatim>\<open>intersect_masks\<close> of the absent \<^verbatim>\<open>masking.py\<close>. It fails
  with \<open>ValueError\<close> on an empty sequence and on masks of different shapes. A voxel is
  foreground where the fraction of masks marking it strictly exceeds the threshold; the
  comparison is half-open, so that the threshold 1 requires all masks to agree. With
  \<open>connected\<close> set the result is restricted to its largest connected component.
\<close>

definition vote_count :: "bool ndarray list \<Rightarrow> nat \<Rightarrow> nat" where
  "vote_count masks v = length (filter (\<lambda>m. elems m ! v) masks)"

definition vote_fraction :: "bool ndarray list \<Rightarrow> nat \<Rightarrow> rat" where
  "vote_fraction masks v = of_nat (vote_count masks v) / of_nat (length masks)"

definition intersect_masks ::
  "labeller \<Rightarrow> bool ndarray list \<Rightarrow> rat \<Rightarrow> bool \<Rightarrow> error + bool ndarray" where
  "intersect_masks label input_masks threshold connected_flag =
     (case input_masks of
        [] \<Rightarrow> Inl (Raise ValueError Builtin)
      | first_mask # _ \<Rightarrow>
          if list_ex (\<lambda>m. shape m \<noteq> shape first_mask) input_masks
          then Inl (Raise ValueError Builtin)
          else
            (let grp_mask =
                   \<lparr>shape = shape first_mask,
                    elems = map (\<lambda>v. if threshold = 1
                                       then vote_count input_masks v = length input_masks
                                       else threshold < vote_fraction input_masks v)
                                [0..<length (elems first_mask)]\<rparr>
             in if connected_flag then largest_connected_component label grp_mask
                else Inr grp_mask))"

text \<open>
  Modelled from the spec: the call of the absent \<^verbatim>\<open>intersect_masks\<close> that leaves
  \<open>connected\<close> to its default. The default is \<open>True\<close>: \<^verbatim>\<open>test_intersect_masks\<close> passes
  \<^verbatim>\<open>connected=False\<close> to obtain the plain union, and expects the isolated voxel to be
  dropped when it does not.
\<close>

definition intersect_masks_default ::
  "labeller \<Rightarrow> bool ndarray list \<Rightarrow> rat \<Rightarrow> error + bool ndarray" where
  "intersect_masks_default label input_masks threshold =
     intersect_masks label input_masks threshold True"

text \<open>The voxel-wise logical AND and OR of two masks.\<close>

definition mask_and :: "bool ndarray \<Rightarrow> bool ndarray \<Rightarrow> bool ndarray" where
  "mask_and a b =
     \<lparr>shape = shape a, elems = map (\<lambda>v. elems a ! v \<and> elems b ! v) [0..<length (elems a)]\<rparr>"

definition mask_or :: "bool ndarray \<Rightarrow> bool ndarray \<Rightarrow> bool ndarray" where
  "mask_or a b =
     \<lparr>shape = shape a, elems = map (\<lambda>v. elems a ! v \<or> elems b ! v) [0..<length (elems a)]\<rparr>"

section \<open>Notions used in the statements\<close>

definition is_string :: "pyobj \<Rightarrow> bool" where
  "is_string x = (case x of PyStr _ \<Rightarrow> True | _ \<Rightarrow> False)"

definition exposes_both :: "pyobj \<Rightarrow> bool" where
  "exposes_both x = (callable (get_data_attr x) \<and> callable (get_affine_attr x))"

definition lacks_both :: "pyobj \<Rightarrow> bool" where
  "lacks_both x = (\<not> callable (get_data_attr x) \<and> \<not> callable (get_affine_attr x))"

definition loadable :: "filesystem \<Rightarrow> pyobj \<Rightarrow> bool" where
  "loadable fs x = (case check_niimg fs x of Inl _ \<Rightarrow> False | Inr _ \<Rightarrow> True)"

text \<open>The affine and the data of an element once \<open>check_niimg\<close> has resolved it.\<close>

definition affine_of :: "filesystem \<Rightarrow> pyobj \<Rightarrow> affine option" where
  "affine_of fs x =
     (case check_niimg fs x of
        Inl _ \<Rightarrow> None
      | Inr y \<Rightarrow> (case get_affine_attr y of Method a \<Rightarrow> Some a | _ \<Rightarrow> None))"

definition data_of :: "filesystem \<Rightarrow> pyobj \<Rightarrow> rat ndarray option" where
  "data_of fs x =
     (case check_niimg fs x of
        Inl _ \<Rightarrow> None
      | Inr y \<Rightarrow> (case get_data_attr y of Method d \<Rightarrow> Some d | _ \<Rightarrow> None))"

text \<open>How an error message names an element: by its path when it is one, by its index otherwise.\<close>

definition element_name :: "nat \<Rightarrow> pyobj \<Rightarrow> string" where
  "element_name index x =
     (case x of PyStr path \<Rightarrow> ''image '' @ path | _ \<Rightarrow> ''image #'' @ str_nat index)"

text \<open>\<^verbatim>\<open>a[..., t]\<close>: the slice of an array at position \<open>t\<close> of its last axis.\<close>

definition slice_last :: "'a ndarray \<Rightarrow> nat \<Rightarrow> 'a ndarray" where
  "slice_last a t =
     \<lparr>shape = butlast (shape a),
      elems = map (\<lambda>j. elems a ! (j * last (shape a) + t)) [0..<prod_list (butlast (shape a))]\<rparr>"

section \<open>Example inputs\<close>

definition identity_affine :: affine where
  "identity_affine = [[1, 0, 0, 0], [0, 1, 0, 0], [0, 0, 1, 0], [0, 0, 0, 1]]"

definition scaled_affine :: affine where
  "scaled_affine = [[1/2, 0, 0, 0], [0, 1, 0, 0], [0, 0, 1/2, 0], [0, 0, 0, 1]]"

definition zeros :: "nat list \<Rightarrow> rat ndarray" where
  "zeros s = \<lparr>shape = s, elems = replicate (prod_list s) 0\<rparr>"

definition image_of_shape :: "nat list \<Rightarrow> pyobj" where
  "image_of_shape s = PyObj (Nifti1Image (zeros s) identity_affine)"

definition data_only_object :: pyobj where
  "data_only_object =
     PyObj \<lparr>get_data = Method (zeros [1, 1, 1]), get_affine = Absent, shape_attr = None\<rparr>"

definition one_file :: filesystem where
  "one_file = Map.empty(''a.nii'' \<mapsto> (zeros [1, 1, 2], identity_affine))"

definition nested_2d_input :: pyobj where
  "nested_2d_input = PyList [PyList [image_of_shape [1, 1]]]"

definition scaled_image :: pyobj where
  "scaled_image = PyObj (Nifti1Image (zeros [1, 1, 2]) scaled_affine)"

definition volume_a :: "rat ndarray" where
  "volume_a = \<lparr>shape = [1, 1, 2], elems = [1, 2]\<rparr>"

definition volume_b :: "rat ndarray" where
  "volume_b = \<lparr>shape = [1, 1, 2], elems = [3, 4]\<rparr>"

definition stacked_ab :: "rat ndarray" where
  "stacked_ab = \<lparr>shape = [1, 1, 2, 2], elems = [1, 3, 2, 4]\<rparr>"

definition image_a :: pyobj where
  "image_a = PyObj (Nifti1Image volume_a identity_affine)"

definition image_b :: pyobj where
  "image_b = PyObj (Nifti1Image volume_b identity_affine)"

definition two_blobs :: "bool ndarray" where
  "two_blobs = \<lparr>shape = [1, 1, 4], elems = [True, False, True, True]\<rparr>"

definition two_blobs_labels :: "nat ndarray" where
  "two_blobs_labels = \<lparr>shape = [1, 1, 4], elems = [1, 0, 2, 2]\<rparr>"

definition empty_volume :: "bool ndarray" where
  "empty_volume = \<lparr>shape = [1, 1, 2], elems = [False, False]\<rparr>"

definition empty_volume_labels :: "nat ndarray" where
  "empty_volume_labels = \<lparr>shape = [1, 1, 2], elems = [0, 0]\<rparr>"

definition largest_blob :: "bool ndarray" where
  "largest_blob = \<lparr>shape = [1, 1, 4], elems = [False, False, True, True]\<rparr>"

definition half_mask :: "bool ndarray" where
  "half_mask = \<lparr>shape = [1, 1, 2], elems = [True, False]\<rparr>"

definition series_data :: "rat ndarray" where
  "series_data = \<lparr>shape = [1, 1, 2, 2], elems = [1, 2, 3, 4]\<rparr>"

definition series_data_zeroed :: "rat ndarray" where
  "series_data_zeroed = \<lparr>shape = [1, 1, 2, 2], elems = [1, 2, 0, 0]\<rparr>"

definition unit_mask :: "bool ndarray" where
  "unit_mask = \<lparr>shape = [1, 1, 1], elems = [True]\<rparr>"

definition left_mask :: "bool ndarray" where
  "left_mask = \<lparr>shape = [1, 1, 3], elems = [True, False, False]\<rparr>"

definition right_mask :: "bool ndarray" where
  "right_mask = \<lparr>shape = [1, 1, 3], elems = [False, False, True]\<rparr>"

definition both_ends :: "bool ndarray" where
  "both_ends = \<lparr>shape = [1, 1, 3], elems = [True, False, True]\<rparr>"

definition no_voxel :: "bool ndarray" where
  "no_voxel = \<lparr>shape = [1, 1, 3], elems = [False, False, False]\<rparr>"

definition ends_labels :: "nat ndarray" where
  "ends_labels = \<lparr>shape = [1, 1, 3], elems = [1, 0, 2]\<rparr>"

definition ends_labeller :: labeller where
  "ends_labeller v = (ends_labels, 2)"

section \<open>Properties\<close>

lemma is_a_niimg_iff: "is_a_niimg x = exposes_both x"
  by (cases "get_data_attr x"; cases "get_affine_attr x")
     (simp_all add: is_a_niimg_def exposes_both_def)

lemma is_a_niimg_Nifti1Image: "is_a_niimg (PyObj (Nifti1Image d a))"
  by (simp add: is_a_niimg_def Nifti1Image_def)

lemma check_niimg_result_is_niimg:
  assumes "check_niimg fs x = Inr y"
  shows "is_a_niimg y"
proof (cases x)
  case (PyStr p)
  with assms obtain d a where "y = PyObj (Nifti1Image d a)"
    by (auto simp: nibabel_load_def split: option.splits)
  then show ?thesis by (simp add: is_a_niimg_Nifti1Image)
next
  case (PyList xs)
  with assms show ?thesis by (auto split: if_splits)
next
  case (PyObj i)
  with assms show ?thesis by (auto split: if_splits)
qed

lemma check_niimg_of_niimg:
  assumes "is_a_niimg y"
  shows "check_niimg fs y = Inr y"
proof (cases y)
  case (PyStr p)
  with assms show ?thesis by (simp add: is_a_niimg_def)
next
  case (PyList xs)
  with assms show ?thesis by simp
next
  case (PyObj i)
  with assms show ?thesis by simp
qed

text \<open>
  C7. \<open>check_niimg\<close> is idempotent: whenever it succeeds on an input (a path string or an
  object with both accessors), applying it to its own output succeeds and returns that
  output unchanged.
\<close>

theorem check_niimg_idempotent:
  "check_niimg fs x = Inr y \<Longrightarrow> check_niimg fs y = Inr y"
  by (rule check_niimg_of_niimg) (rule check_niimg_result_is_niimg)

theorem check_niimg_idempotent_witness:
  "check_niimg one_file (PyStr ''a.nii'') = Inr (image_of_shape [1, 1, 2]) \<and>
   check_niimg one_file (image_of_shape [1, 1, 2]) = Inr (image_of_shape [1, 1, 2])"
proof -
  have h: "check_niimg one_file (PyStr ''a.nii'') = Inr (image_of_shape [1, 1, 2])"
    by (simp add: nibabel_load_def one_file_def image_of_shape_def)
  show ?thesis
    by (rule conjI [OF h check_niimg_idempotent [OF h]])
qed

lemma check_niimg_non_string:
  "\<not> is_string x \<Longrightarrow>
   check_niimg fs x = (if exposes_both x then Inr x else Inl (Raise TypeError NotNiimg))"
  by (cases x) (simp_all add: is_string_def is_a_niimg_iff)

text \<open>
  C6, as the claim states it, fails: an object that has a callable \<open>get_data\<close> and no
  \<open>get_affine\<close> does not lack both capabilities, and \<open>check_niimg\<close> still raises the
  \<open>TypeError\<close>.
\<close>

theorem check_niimg_lacks_both_counterexample:
  "\<not> is_string data_only_object \<and>
   \<not> lacks_both data_only_object \<and>
   check_niimg Map.empty data_only_object = Inl (Raise TypeError NotNiimg)"
  by (simp add: data_only_object_def is_string_def lacks_both_def is_a_niimg_def)

text \<open>
  C6, amended. For every non-string object, \<open>check_niimg\<close> returns the object itself when
  it exposes callable \<open>get_data\<close> and \<open>get_affine\<close>, and raises the \<open>TypeError\<close> exactly
  when it does not expose both (at least one of the two is missing or not callable).
\<close>

theorem check_niimg_object:
  assumes "\<not> is_string x"
  shows "(exposes_both x \<longrightarrow> check_niimg fs x = Inr x) \<and>
         ((check_niimg fs x = Inl (Raise TypeError NotNiimg)) = (\<not> exposes_both x)) \<and>
         ((\<exists>e. check_niimg fs x = Inl e) = (\<not> exposes_both x))"
  using assms by (simp add: check_niimg_non_string)

theorem check_niimg_object_witness:
  "\<not> is_string (image_of_shape [1, 1, 2]) \<and>
   exposes_both (image_of_shape [1, 1, 2]) \<and>
   check_niimg Map.empty (image_of_shape [1, 1, 2]) = Inr (image_of_shape [1, 1, 2]) \<and>
   \<not> is_string data_only_object \<and>
   \<not> exposes_both data_only_object \<and>
   check_niimg Map.empty data_only_object = Inl (Raise TypeError NotNiimg)"
proof -
  have a: "\<not> is_string (image_of_shape [1, 1, 2])"
    by (simp add: image_of_shape_def is_string_def)
  have b: "exposes_both (image_of_shape [1, 1, 2])"
    by (simp add: image_of_shape_def exposes_both_def Nifti1Image_def)
  have c: "\<not> is_string data_only_object"
    by (simp add: data_only_object_def is_string_def)
  have d: "\<not> exposes_both data_only_object"
    by (simp add: data_only_object_def exposes_both_def)
  from check_niimg_object [OF a, of Map.empty] b
  have e: "check_niimg Map.empty (image_of_shape [1, 1, 2]) = Inr (image_of_shape [1, 1, 2])"
    by blast
  from check_niimg_object [OF c, of Map.empty] d
  have f: "check_niimg Map.empty data_only_object = Inl (Raise TypeError NotNiimg)"
    by blast
  from a b c d e f show ?thesis by blast
qed

text \<open>
  C10. On the empty sequence \<open>concat_niimgs\<close> raises neither \<open>ValueError\<close> nor
  \<open>TypeError\<close>: taking the first element of the empty iterator raises \<open>StopIteration\<close>.
\<close>

theorem concat_niimgs_empty:
  "concat_niimgs fs (PyList []) = Inl (Raise StopIteration Builtin)"
  by (simp add: concat_niimgs_def)

subsection \<open>The list normalizer\<close>

lemma is_a_niimg_accessors:
  assumes "is_a_niimg x"
  obtains d a where "get_data_attr x = Method d" and "get_affine_attr x = Method a"
  using assms unfolding is_a_niimg_iff exposes_both_def
  by (cases "get_data_attr x"; cases "get_affine_attr x") simp_all

lemma get_shape_of_niimg:
  assumes "is_a_niimg x"
  shows "\<exists>s. get_shape x = Inr s"
proof -
  from assms obtain d a where "get_data_attr x = Method d"
    by (rule is_a_niimg_accessors)
  then show ?thesis
    by (simp add: get_shape_def split: option.splits)
qed

text \<open>
  C9. With \<open>accept_3d\<close> set, a non-iterable, non-string input that \<open>check_niimg\<close> accepts
  is returned unchanged whenever its dimensionality is not 3, whatever that
  dimensionality is (5 for example): no check of depth plus dimensionality is made and no
  \<open>TypeError\<close> is raised. Only a 3D input is replaced, by the 4D image with one trailing
  slice.
\<close>

theorem check_niimgs_accept_3d:
  assumes "\<not> is_basestring x" and "\<not> is_Iterable x" and "is_a_niimg x"
  shows "\<exists>s d a. get_shape x = Inr s \<and> get_data_attr x = Method d \<and>
           get_affine_attr x = Method a \<and>
           check_niimgs fs x True =
             (if length s = 3 then Inr (PyObj (Nifti1Image (newaxis d) a)) else Inr x)"
proof -
  from assms(3) obtain d a
    where d: "get_data_attr x = Method d" and a: "get_affine_attr x = Method a"
    by (rule is_a_niimg_accessors)
  from get_shape_of_niimg [OF assms(3)] obtain s where s: "get_shape x = Inr s" ..
  have "check_niimg fs x = Inr x"
    using assms(3) by (rule check_niimg_of_niimg)
  with assms(1,2) d a s
  have "check_niimgs fs x True =
          (if length s = 3 then Inr (PyObj (Nifti1Image (newaxis d) a)) else Inr x)"
    by (simp add: check_niimgs_def)
  with s d a show ?thesis by blast
qed

theorem check_niimgs_accept_3d_witness:
  "\<not> is_basestring (image_of_shape [1, 1, 1, 1, 1]) \<and>
   \<not> is_Iterable (image_of_shape [1, 1, 1, 1, 1]) \<and>
   is_a_niimg (image_of_shape [1, 1, 1, 1, 1]) \<and>
   get_shape (image_of_shape [1, 1, 1, 1, 1]) = Inr [1, 1, 1, 1, 1] \<and>
   check_niimgs Map.empty (image_of_shape [1, 1, 1, 1, 1]) True
     = Inr (image_of_shape [1, 1, 1, 1, 1])"
proof -
  let ?x = "image_of_shape [1, 1, 1, 1, 1]"
  have h1: "\<not> is_basestring ?x" and h2: "\<not> is_Iterable ?x"
    by (simp_all add: image_of_shape_def)
  have h3: "is_a_niimg ?x"
    by (simp add: image_of_shape_def is_a_niimg_Nifti1Image)
  have sh: "get_shape ?x = Inr [1, 1, 1, 1, 1]"
    by (simp add: image_of_shape_def get_shape_def Nifti1Image_def zeros_def)
  from check_niimgs_accept_3d [OF h1 h2 h3, of Map.empty] sh
  have "check_niimgs Map.empty ?x True = Inr ?x"
    by auto
  with h1 h2 h3 sh show ?thesis by blast
qed

text \<open>
  What \<open>check_niimgs\<close> does without \<open>accept_3d\<close>, once the walk has reached a leaf at
  some depth and \<open>check_niimg\<close> has resolved it to an image of some dimensionality.
\<close>

lemma first_leaf_depth:
  "first_leaf x n = Inr (leaf, depth) \<Longrightarrow> n \<le> depth"
  by (induction x n rule: first_leaf.induct) auto

lemma first_leaf_same_depth:
  "first_leaf x n = Inr (leaf, n) \<Longrightarrow> leaf = x"
  by (induction x n rule: first_leaf.induct) (auto dest: first_leaf_depth)

lemma first_leaf_deep:
  assumes "first_leaf x 0 = Inr (leaf, depth)" and "2 \<le> depth"
  shows "\<exists>ys rest. x = PyList (PyList ys # rest)"
proof (cases x)
  case (PyStr p)
  with assms show ?thesis by simp
next
  case (PyObj i)
  with assms show ?thesis by simp
next
  case (PyList xs)
  show ?thesis
  proof (cases xs)
    case Nil
    with PyList assms show ?thesis by simp
  next
    case (Cons y rest)
    with PyList assms have y: "first_leaf y 1 = Inr (leaf, depth)" by simp
    show ?thesis
    proof (cases y)
      case (PyList ys)
      with Cons \<open>x = PyList xs\<close> show ?thesis by simp
    next
      case (PyStr p)
      with y assms(2) show ?thesis by simp
    next
      case (PyObj i)
      with y assms(2) show ?thesis by simp
    qed
  qed
qed

lemma check_niimgs_wrong_dims:
  assumes "first_leaf x 0 = Inr (leaf, depth)"
    and "check_niimg fs leaf = Inr img"
    and "get_shape img = Inr s"
    and "length s + depth \<noteq> 4"
  shows "check_niimgs fs x False =
           Inl (Raise TypeError (WrongDims (concat (replicate depth ''list of '')) (length s)))"
  using assms by (simp add: check_niimgs_def)

lemma concat_niimgs_nested:
  "concat_niimgs fs (PyList (PyList ys # rest)) = Inl (Raise TypeError NotNiimg)"
  by (simp add: concat_niimgs_def is_a_niimg_def)

lemma check_niimgs_nested_sum_4:
  assumes "first_leaf x 0 = Inr (leaf, depth)"
    and "check_niimg fs leaf = Inr img"
    and "get_shape img = Inr s"
    and "length s + depth = 4"
    and "2 \<le> depth"
  shows "check_niimgs fs x False = Inl (Raise TypeError NotNiimg)"
proof -
  from first_leaf_deep [OF assms(1,5)] obtain ys rest
    where x: "x = PyList (PyList ys # rest)" by blast
  have c: "concat_niimgs fs x = Inl (Raise TypeError NotNiimg)"
    unfolding x by (rule concat_niimgs_nested)
  have n4: "length s \<noteq> 4" using assms(4,5) by simp
  have "check_niimgs fs x False = concat_niimgs fs x"
    unfolding check_niimgs_def using assms(1-4) n4 by simp
  with c show ?thesis by simp
qed

lemma check_niimgs_success_legal:
  assumes "first_leaf x 0 = Inr (leaf, depth)"
    and "check_niimg fs leaf = Inr img"
    and "get_shape img = Inr s"
    and "check_niimgs fs x False = Inr r"
  shows "(depth = 1 \<and> length s = 3) \<or> (depth = 0 \<and> length s = 4)"
proof -
  have sum4: "length s + depth = 4"
  proof (rule ccontr)
    assume "length s + depth \<noteq> 4"
    from check_niimgs_wrong_dims [OF assms(1-3) this] assms(4) show False by simp
  qed
  have "\<not> 2 \<le> depth"
  proof
    assume "2 \<le> depth"
    from check_niimgs_nested_sum_4 [OF assms(1-3) sum4 this] assms(4) show False by simp
  qed
  with sum4 show ?thesis by arith
qed

text \<open>
  C1. The claim fails on the code at a depth-2 nesting of 2D leaves: depth plus
  dimensionality is 4 there, so the check of \<open>check_niimgs\<close> lets it pass, and the error
  comes from \<open>concat_niimgs\<close> instead: the \<open>TypeError\<close> of \<open>check_niimg\<close> about missing
  accessors, which reports neither the depth nor the dimensionality.
\<close>

theorem check_niimgs_nested_2d:
  "first_leaf nested_2d_input 0 = Inr (image_of_shape [1, 1], 2) \<and>
   get_shape (image_of_shape [1, 1]) = Inr [1, 1] \<and>
   check_niimgs fs nested_2d_input False = Inl (Raise TypeError NotNiimg) \<and>
   check_niimgs fs nested_2d_input False
     \<noteq> Inl (Raise TypeError (WrongDims ''list of list of '' 2))"
proof -
  have a: "first_leaf nested_2d_input 0 = Inr (image_of_shape [1, 1], 2)"
    by (simp add: nested_2d_input_def image_of_shape_def)
  have b: "get_shape (image_of_shape [1, 1]) = Inr [1, 1]"
    by (simp add: image_of_shape_def get_shape_def Nifti1Image_def zeros_def)
  have c: "check_niimg fs (image_of_shape [1, 1]) = Inr (image_of_shape [1, 1])"
    by (simp add: image_of_shape_def is_a_niimg_Nifti1Image)
  have "check_niimgs fs nested_2d_input False = Inl (Raise TypeError NotNiimg)"
    by (rule check_niimgs_nested_sum_4 [OF a c b]) simp_all
  with a b show ?thesis by simp
qed

subsection \<open>The concatenator\<close>

lemma loadable_iff: "loadable fs x = (\<exists>y. check_niimg fs x = Inr y)"
  by (cases "check_niimg fs x") (simp_all add: loadable_def)

lemma loadable_accessors:
  assumes "loadable fs x"
  obtains y d a where "check_niimg fs x = Inr y"
    and "get_data_attr y = Method d" and "get_affine_attr y = Method a"
    and "affine_of fs x = Some a" and "data_of fs x = Some d"
proof -
  from assms obtain y where y: "check_niimg fs x = Inr y"
    unfolding loadable_iff by blast
  from check_niimg_result_is_niimg [OF y] obtain d a
    where "get_data_attr y = Method d" and "get_affine_attr y = Method a"
    by (rule is_a_niimg_accessors)
  with y that show ?thesis
    by (simp add: affine_of_def data_of_def)
qed

lemma concat_loop_same_affine:
  assumes "loadable fs x" and "affine_of fs x = Some A" and "data_of fs x = Some d"
  shows "concat_loop fs A i (x # rest) acc =
           concat_loop fs A (Suc i) rest
             (acc @ [if length (shape d) = 3 then newaxis d else d])"
proof -
  from assms(1) obtain y d' a where "check_niimg fs x = Inr y"
    and "get_data_attr y = Method d'" and "get_affine_attr y = Method a"
    and "affine_of fs x = Some a" and "data_of fs x = Some d'"
    by (rule loadable_accessors)
  with assms(2,3) show ?thesis
    by (simp add: array_equal_def)
qed

lemma concat_loop_other_affine:
  assumes "loadable fs x" and "affine_of fs x = Some a" and "a \<noteq> A"
  shows "concat_loop fs A i (x # rest) acc =
           Inl (Raise ValueError (AffineMismatch (element_name i x) A a))"
proof -
  from assms(1) obtain y d' a' where "check_niimg fs x = Inr y"
    and "get_data_attr y = Method d'" and "get_affine_attr y = Method a'"
    and "affine_of fs x = Some a'" and "data_of fs x = Some d'"
    by (rule loadable_accessors)
  with assms(2,3) show ?thesis
    by (simp add: array_equal_def element_name_def)
qed

lemma concat_loop_mismatch:
  assumes "\<forall>x\<in>set pre. loadable fs x \<and> affine_of fs x = Some A"
    and "loadable fs x" and "affine_of fs x = Some a" and "a \<noteq> A"
  shows "concat_loop fs A i (pre @ x # post) acc =
           Inl (Raise ValueError (AffineMismatch (element_name (i + length pre) x) A a))"
  using assms(1)
proof (induction pre arbitrary: i acc)
  case Nil
  show ?case using concat_loop_other_affine [OF assms(2-4)] by simp
next
  case (Cons p pre)
  from Cons.prems have p: "loadable fs p" "affine_of fs p = Some A" by simp_all
  from p(1) obtain d where d: "data_of fs p = Some d"
    by (rule loadable_accessors)
  from Cons.prems have "\<forall>x\<in>set pre. loadable fs x \<and> affine_of fs x = Some A" by simp
  from Cons.IH [OF this, of "Suc i"] show ?case
    unfolding append_Cons concat_loop_same_affine [OF p d] by simp
qed

text \<open>
  C4. When every element of the sequence is loadable and the affine of some element
  differs from the affine of the first, \<open>concat_niimgs\<close> raises a \<open>ValueError\<close> whose
  message names a diverging element (the first one), by its path when it was given as a
  path string and by its index otherwise, and carries the reference affine and the
  diverging one.
\<close>

theorem concat_niimgs_affine_mismatch:
  assumes "\<forall>x\<in>set xs. loadable fs x"
    and "\<exists>k<length xs. affine_of fs (xs ! k) \<noteq> affine_of fs (xs ! 0)"
  shows "\<exists>k ref wrong. k < length xs \<and>
           affine_of fs (xs ! 0) = Some ref \<and> affine_of fs (xs ! k) = Some wrong \<and>
           wrong \<noteq> ref \<and>
           concat_niimgs fs (PyList xs) =
             Inl (Raise ValueError (AffineMismatch (element_name k (xs ! k)) ref wrong))"
proof -
  define P where "P k = (k < length xs \<and> affine_of fs (xs ! k) \<noteq> affine_of fs (xs ! 0))" for k
  from assms(2) have "\<exists>k. P k" unfolding P_def by blast
  then obtain k where k: "P k" and least: "\<And>j. j < k \<Longrightarrow> \<not> P j"
    using exists_least_iff [of P] by blast
  from k have klen: "k < length xs" and differs: "affine_of fs (xs ! k) \<noteq> affine_of fs (xs ! 0)"
    unfolding P_def by simp_all
  from klen obtain first rest where xs: "xs = first # rest"
    by (cases xs) simp_all
  have first: "xs ! 0 = first" by (simp add: xs)
  have "loadable fs first" using assms(1) by (simp add: xs)
  then obtain y d ref where y: "check_niimg fs first = Inr y"
    and yref: "get_affine_attr y = Method ref" and ref: "affine_of fs first = Some ref"
    by (rule loadable_accessors)
  have lk: "loadable fs (xs ! k)" using assms(1) klen by simp
  then obtain wrong where wrong: "affine_of fs (xs ! k) = Some wrong"
    by (rule loadable_accessors)
  from differs wrong ref first have neq: "wrong \<noteq> ref" by simp
  have pre: "\<forall>x\<in>set (take k xs). loadable fs x \<and> affine_of fs x = Some ref"
  proof
    fix x assume "x \<in> set (take k xs)"
    then obtain j where j: "j < k" and x: "x = xs ! j"
      using klen by (auto simp: in_set_conv_nth)
    from least [OF j] j klen have "affine_of fs (xs ! j) = affine_of fs (xs ! 0)"
      unfolding P_def by simp
    moreover have "loadable fs (xs ! j)" using assms(1) j klen by simp
    ultimately show "loadable fs x \<and> affine_of fs x = Some ref"
      using x ref first by simp
  qed
  have split: "xs = take k xs @ xs ! k # drop (Suc k) xs"
    using klen by (rule id_take_nth_drop)
  have "concat_loop fs ref 0 (take k xs @ xs ! k # drop (Suc k) xs) [] =
          Inl (Raise ValueError
                 (AffineMismatch (element_name (0 + length (take k xs)) (xs ! k)) ref wrong))"
    using pre lk wrong neq by (rule concat_loop_mismatch)
  with split klen have loop: "concat_loop fs ref 0 xs [] =
          Inl (Raise ValueError (AffineMismatch (element_name k (xs ! k)) ref wrong))"
    by (simp add: min_absorb2)
  have "concat_niimgs fs (PyList xs) = 
          (case concat_loop fs ref 0 xs [] of
             Inl e \<Rightarrow> Inl e
           | Inr data \<Rightarrow>
               (case np_concatenate_last data of
                  Inl e \<Rightarrow> Inl e
                | Inr d \<Rightarrow> Inr (PyObj (Nifti1Image d ref))))"
    unfolding concat_niimgs_def by (simp add: xs y yref)
  with loop have "concat_niimgs fs (PyList xs) =
          Inl (Raise ValueError (AffineMismatch (element_name k (xs ! k)) ref wrong))"
    by simp
  with klen ref wrong neq first show ?thesis by auto
qed

lemma affine_of_Nifti1Image: "affine_of fs (PyObj (Nifti1Image d a)) = Some a"
  by (simp add: affine_of_def is_a_niimg_Nifti1Image) (simp add: Nifti1Image_def)

lemma loadable_Nifti1Image: "loadable fs (PyObj (Nifti1Image d a))"
  by (simp add: loadable_def is_a_niimg_Nifti1Image)

lemma affines_differ: "scaled_affine \<noteq> identity_affine"
  by (simp add: scaled_affine_def identity_affine_def)

theorem concat_niimgs_affine_mismatch_witness:
  "list_all (loadable Map.empty) [image_of_shape [1, 1, 2], scaled_image] \<and>
   affine_of Map.empty ([image_of_shape [1, 1, 2], scaled_image] ! 1)
     \<noteq> affine_of Map.empty ([image_of_shape [1, 1, 2], scaled_image] ! 0) \<and>
   concat_niimgs Map.empty (PyList [image_of_shape [1, 1, 2], scaled_image]) =
     Inl (Raise ValueError (AffineMismatch ''image #1'' identity_affine scaled_affine))"
proof -
  let ?xs = "[image_of_shape [1, 1, 2], scaled_image]"
  have a0: "affine_of Map.empty (?xs ! 0) = Some identity_affine"
    by (simp add: image_of_shape_def affine_of_Nifti1Image)
  have a1: "affine_of Map.empty (?xs ! 1) = Some scaled_affine"
    by (simp add: scaled_image_def affine_of_Nifti1Image)
  have h1: "\<forall>x\<in>set ?xs. loadable Map.empty x"
    by (simp add: image_of_shape_def scaled_image_def loadable_Nifti1Image)
  have d: "affine_of Map.empty (?xs ! 1) \<noteq> affine_of Map.empty (?xs ! 0)"
    unfolding a0 a1 using affines_differ by simp
  then have h2: "\<exists>k<length ?xs. affine_of Map.empty (?xs ! k) \<noteq> affine_of Map.empty (?xs ! 0)"
    by (intro exI [of _ 1]) simp
  from concat_niimgs_affine_mismatch [OF h1 h2] obtain k ref wrong
    where k: "k < length ?xs"
      and r: "affine_of Map.empty (?xs ! 0) = Some ref"
      and w: "affine_of Map.empty (?xs ! k) = Some wrong"
      and n: "wrong \<noteq> ref"
      and e: "concat_niimgs Map.empty (PyList ?xs) =
                Inl (Raise ValueError (AffineMismatch (element_name k (?xs ! k)) ref wrong))"
    by blast
  from r a0 have ref: "ref = identity_affine" by simp
  have k1: "k = 1"
  proof (rule ccontr)
    assume "k \<noteq> 1"
    with k have "k = 0" by simp
    with w r n show False by simp
  qed
  from w a1 k1 have wrong: "wrong = scaled_affine" by simp
  have nm: "element_name 1 (?xs ! 1) = ''image #1''"
    by (simp add: element_name_def scaled_image_def digit_char_def)
  from e have "concat_niimgs Map.empty (PyList ?xs) =
     Inl (Raise ValueError (AffineMismatch ''image #1'' identity_affine scaled_affine))"
    unfolding k1 ref wrong nm .
  moreover have "list_all (loadable Map.empty) ?xs"
    using h1 by (simp add: list_all_iff)
  ultimately show ?thesis using d by blast
qed

lemma concat_loop_all_same:
  assumes "\<forall>x\<in>set xs. loadable fs x \<and> affine_of fs x = Some A"
  shows "concat_loop fs A i xs acc =
           Inr (acc @ map (\<lambda>x. let d = the (data_of fs x)
                                in if length (shape d) = 3 then newaxis d else d) xs)"
  using assms
proof (induction xs arbitrary: i acc)
  case Nil
  show ?case by simp
next
  case (Cons p xs)
  from Cons.prems have p: "loadable fs p" "affine_of fs p = Some A" by simp_all
  from p(1) obtain d where d: "data_of fs p = Some d"
    by (rule loadable_accessors)
  from Cons.prems have "\<forall>x\<in>set xs. loadable fs x \<and> affine_of fs x = Some A" by simp
  from Cons.IH [OF this, of "Suc i"] show ?case
    unfolding concat_loop_same_affine [OF p d] by (simp add: d)
qed

lemma nth_concat_uniform:
  assumes "\<And>j. j < n \<Longrightarrow> length (f j) = m" and "j < n" and "t < m"
  shows "concat (map f [0..<n]) ! (j * m + t) = f j ! t"
  using assms
proof (induction n arbitrary: j)
  case 0
  then show ?case by simp
next
  case (Suc n)
  have len: "length (concat (map f [0..<n])) = n * m"
    using Suc.prems(1) by (induction n) simp_all
  show ?case
  proof (cases "j < n")
    case True
    then have "j * m + t < n * m"
    proof -
      from True have "Suc j \<le> n" by simp
      then have "Suc j * m \<le> n * m" by (rule mult_le_mono1)
      with Suc.prems(3) show ?thesis by simp
    qed
    with Suc.IH [of j] Suc.prems True len show ?thesis
      by (simp add: nth_append)
  next
    case False
    with Suc.prems(2) have "j = n" by simp
    with len Suc.prems show ?thesis
      by (simp add: nth_append)
  qed
qed

lemma length_concat_uniform:
  assumes "\<And>j. j < n \<Longrightarrow> length (f j) = m"
  shows "length (concat (map f [0..<n])) = n * m"
  using assms by (induction n) simp_all

lemma rows_newaxis:
  assumes "j < length (elems d)"
  shows "take 1 (drop (j * 1) (elems d)) = [elems d ! j]"
  using assms by (simp add: take_Suc_conv_app_nth [of 0] hd_drop_conv_nth drop_eq_Nil take_Suc)

lemma shape_newaxis: "shape (newaxis d) = shape d @ [1]"
  and elems_newaxis: "elems (newaxis d) = elems d"
  by (simp_all add: newaxis_def)

lemma rows_newaxis_nth:
  assumes "wf_array d" and "j < prod_list (shape d)"
  shows "rows (newaxis d) ! j = [elems d ! j]"
proof -
  from assms have "j < length (elems d)" by (simp add: wf_array_def)
  then have "take 1 (drop (j * 1) (elems d)) = [elems d ! j]" by (rule rows_newaxis)
  with assms(2) show ?thesis
    by (simp add: rows_def shape_newaxis elems_newaxis)
qed

lemma np_concatenate_newaxis:
  assumes "ds \<noteq> []" and "\<forall>d\<in>set ds. shape d = s \<and> wf_array d"
  shows "np_concatenate_last (map newaxis ds) =
           Inr \<lparr>shape = s @ [length ds],
                elems = concat (map (\<lambda>j. map (\<lambda>d. elems d ! j) ds) [0..<prod_list s])\<rparr>"
proof -
  from assms(1) obtain d0 rest where ds: "ds = d0 # rest" by (cases ds) simp_all
  have s0: "shape d0 = s" using assms(2) by (simp add: ds)
  have no_scalar: "\<not> list_ex (\<lambda>b. shape b = []) (map newaxis ds)"
    by (simp add: list_ex_iff shape_newaxis)
  have same: "\<not> list_ex (\<lambda>b. butlast (shape b) \<noteq> butlast (shape (newaxis d0))) (map newaxis ds)"
    using assms(2) s0 by (simp add: list_ex_iff shape_newaxis)
  have total: "sum_list (map (\<lambda>b. last (shape b)) (map newaxis ds)) = length ds"
    by (simp add: shape_newaxis comp_def sum_list_triv)
  have row: "concat (map (\<lambda>b. rows b ! j) (map newaxis ds)) = map (\<lambda>d. elems d ! j) ds"
    if "j < prod_list s" for j
  proof -
    have "map (\<lambda>b. rows b ! j) (map newaxis ds) = map (\<lambda>d. [elems d ! j]) ds"
      using assms(2) that by (simp add: rows_newaxis_nth)
    then have "concat (map (\<lambda>b. rows b ! j) (map newaxis ds))
                 = concat (map (\<lambda>d. [elems d ! j]) ds)"
      by (rule arg_cong)
    also have "\<dots> = map (\<lambda>d. elems d ! j) ds"
      by (rule concat_map_singleton)
    finally show ?thesis .
  qed
  have "map (\<lambda>j. concat (map (\<lambda>b. rows b ! j) (map newaxis ds))) [0..<prod_list s]
          = map (\<lambda>j. map (\<lambda>d. elems d ! j) ds) [0..<prod_list s]"
  proof (rule map_cong [OF refl])
    fix j assume "j \<in> set [0..<prod_list s]"
    then have "j < prod_list s" by simp
    then show "concat (map (\<lambda>b. rows b ! j) (map newaxis ds)) = map (\<lambda>d. elems d ! j) ds"
      by (rule row)
  qed
  then have el: "concat (map (\<lambda>j. concat (map (\<lambda>b. rows b ! j) (map newaxis ds))) [0..<prod_list s])
          = concat (map (\<lambda>j. map (\<lambda>d. elems d ! j) ds) [0..<prod_list s])"
    by (rule arg_cong)
  have "np_concatenate_last (map newaxis ds) =
          Inr \<lparr>shape = butlast (shape (newaxis d0)) @
                        [sum_list (map (\<lambda>b. last (shape b)) (map newaxis ds))],
               elems = concat (map (\<lambda>j. concat (map (\<lambda>b. rows b ! j) (map newaxis ds)))
                                   [0..<prod_list (butlast (shape (newaxis d0)))])\<rparr>"
    using no_scalar same unfolding np_concatenate_last_def by (simp add: ds)
  also have "butlast (shape (newaxis d0)) = s" by (simp add: shape_newaxis s0)
  finally show ?thesis unfolding total el .
qed

lemma slice_last_stacked:
  assumes "\<forall>d\<in>set ds. shape d = s \<and> wf_array d" and "t < length ds"
  shows "slice_last \<lparr>shape = s @ [length ds],
                      elems = concat (map (\<lambda>j. map (\<lambda>d. elems d ! j) ds) [0..<prod_list s])\<rparr> t
         = ds ! t"
proof -
  let ?E = "concat (map (\<lambda>j. map (\<lambda>d. elems d ! j) ds) [0..<prod_list s])"
  from assms have dt: "shape (ds ! t) = s" "wf_array (ds ! t)" by simp_all
  have "?E ! (j * length ds + t) = elems (ds ! t) ! j" if "j < prod_list s" for j
  proof -
    have "?E ! (j * length ds + t) = map (\<lambda>d. elems d ! j) ds ! t"
      using that assms(2) by (intro nth_concat_uniform) simp_all
    with assms(2) show ?thesis by simp
  qed
  then have "map (\<lambda>j. ?E ! (j * length ds + t)) [0..<prod_list s]
               = map (\<lambda>j. elems (ds ! t) ! j) [0..<prod_list s]"
    by (intro map_cong) simp_all
  also have "\<dots> = elems (ds ! t)"
  proof -
    have "prod_list s = length (elems (ds ! t))"
      using dt by (simp add: wf_array_def)
    then show ?thesis by (simp only: map_nth)
  qed
  finally have "elems (slice_last \<lparr>shape = s @ [length ds], elems = ?E\<rparr> t) = elems (ds ! t)"
    by (simp add: slice_last_def)
  moreover have "shape (slice_last \<lparr>shape = s @ [length ds], elems = ?E\<rparr> t) = shape (ds ! t)"
    using dt by (simp add: slice_last_def)
  ultimately show ?thesis by simp
qed

lemma wf_stacked:
  "wf_array \<lparr>shape = s @ [length ds],
             elems = concat (map (\<lambda>j. map (\<lambda>d. elems d ! j) (ds :: 'a ndarray list))
                                 [0..<prod_list s])\<rparr>"
proof -
  have "length (concat (map (\<lambda>j. map (\<lambda>d. elems d ! j) ds) [0..<prod_list s]))
          = prod_list s * length ds"
    by (rule length_concat_uniform) simp
  then show ?thesis by (simp add: wf_array_def)
qed

lemma data_of_loadable: "data_of fs x = Some d \<Longrightarrow> loadable fs x"
  by (cases "check_niimg fs x") (simp_all add: data_of_def loadable_def)

text \<open>
  C5, amended. For every non-empty sequence of loadable 3D images (well-formed arrays)
  that share one affine and one shape, \<open>concat_niimgs\<close> returns a single 4D image with that affine; each input is
  promoted to a trailing axis of length 1, the promoted arrays are stacked along the
  trailing axis, and the slice of the result at position \<open>t\<close> of the trailing axis is the
  data of the \<open>t\<close>-th input.
\<close>

theorem concat_niimgs_stack:
  assumes "xs \<noteq> []"
    and "\<forall>x\<in>set xs. affine_of fs x = Some A"
    and "\<forall>x\<in>set xs. \<exists>d. data_of fs x = Some d \<and> shape d = s \<and> wf_array d"
    and "length s = 3"
  shows "\<exists>d. concat_niimgs fs (PyList xs) = Inr (PyObj (Nifti1Image d A)) \<and>
              shape d = s @ [length xs] \<and> wf_array d \<and>
              (\<forall>t<length xs. data_of fs (xs ! t) = Some (slice_last d t))"
proof -
  let ?ds = "map (\<lambda>x. the (data_of fs x)) xs"
  let ?d = "\<lparr>shape = s @ [length ?ds],
             elems = concat (map (\<lambda>j. map (\<lambda>d. elems d ! j) ?ds) [0..<prod_list s])\<rparr>"
  have ds: "\<forall>d\<in>set ?ds. shape d = s \<and> wf_array d"
    using assms(3) by auto
  have ld: "\<forall>x\<in>set xs. loadable fs x \<and> affine_of fs x = Some A"
    using assms(2,3) by (auto intro: data_of_loadable)
  have promoted: "map (\<lambda>x. let d = the (data_of fs x)
                           in if length (shape d) = 3 then newaxis d else d) xs
                  = map newaxis ?ds"
    using assms(3,4) by auto
  have loop: "concat_loop fs A 0 xs [] = Inr (map newaxis ?ds)"
    using concat_loop_all_same [OF ld, of 0 "[]"] promoted by simp
  have stack: "np_concatenate_last (map newaxis ?ds) = Inr ?d"
    using assms(1) ds by (intro np_concatenate_newaxis) simp_all
  from assms(1) obtain first rest where xs: "xs = first # rest"
    by (cases xs) simp_all
  from ld have "loadable fs first" by (simp add: xs)
  then obtain y a where y: "check_niimg fs first = Inr y"
    and ya: "get_affine_attr y = Method a" and "affine_of fs first = Some a"
    by (rule loadable_accessors)
  with ld have a: "a = A" by (simp add: xs)
  have "concat_niimgs fs (PyList xs) =
          (case concat_loop fs A 0 xs [] of
             Inl e \<Rightarrow> Inl e
           | Inr data \<Rightarrow>
               (case np_concatenate_last data of
                  Inl e \<Rightarrow> Inl e
                | Inr d \<Rightarrow> Inr (PyObj (Nifti1Image d A))))"
    unfolding concat_niimgs_def by (simp add: xs y ya a)
  then have result: "concat_niimgs fs (PyList xs) = Inr (PyObj (Nifti1Image ?d A))"
    unfolding loop using stack by simp
  have slices: "\<forall>t<length xs. data_of fs (xs ! t) = Some (slice_last ?d t)"
  proof (intro allI impI)
    fix t assume t: "t < length xs"
    then have "slice_last ?d t = ?ds ! t"
      using ds by (intro slice_last_stacked) simp_all
    also have "\<dots> = the (data_of fs (xs ! t))" using t by simp
    finally have eq: "slice_last ?d t = the (data_of fs (xs ! t))" .
    from t have "xs ! t \<in> set xs" by simp
    with assms(3) obtain d where "data_of fs (xs ! t) = Some d" by blast
    with eq show "data_of fs (xs ! t) = Some (slice_last ?d t)" by simp
  qed
  have "shape ?d = s @ [length xs]" by simp
  moreover have "wf_array ?d" by (rule wf_stacked)
  ultimately show ?thesis using result slices by blast
qed

lemma data_of_Nifti1Image: "data_of fs (PyObj (Nifti1Image d a)) = Some d"
  by (simp add: data_of_def is_a_niimg_Nifti1Image) (simp add: Nifti1Image_def)

text \<open>
  C5, as the claim states it, fails: two 3D images with the same affine and different
  shapes are promoted, and \<open>np.concatenate\<close> then refuses them with a \<open>ValueError\<close>.
\<close>

theorem concat_niimgs_stack_counterexample:
  "affine_of Map.empty (image_of_shape [1, 1, 1]) = Some identity_affine \<and>
   affine_of Map.empty (image_of_shape [1, 1, 2]) = Some identity_affine \<and>
   data_of Map.empty (image_of_shape [1, 1, 1]) = Some (zeros [1, 1, 1]) \<and>
   data_of Map.empty (image_of_shape [1, 1, 2]) = Some (zeros [1, 1, 2]) \<and>
   ndim (zeros [1, 1, 1]) = 3 \<and> ndim (zeros [1, 1, 2]) = 3 \<and>
   concat_niimgs Map.empty (PyList [image_of_shape [1, 1, 1], image_of_shape [1, 1, 2]])
     = Inl (Raise ValueError Builtin)"
proof -
  have "concat_loop Map.empty identity_affine 0
          [image_of_shape [1, 1, 1], image_of_shape [1, 1, 2]] []
        = Inr [newaxis (zeros [1, 1, 1]), newaxis (zeros [1, 1, 2])]"
    by (simp add: image_of_shape_def Nifti1Image_def is_a_niimg_def array_equal_def zeros_def)
  moreover have "np_concatenate_last [newaxis (zeros [1, 1, 1]), newaxis (zeros [1, 1, 2]) :: rat ndarray]
        = Inl (Raise ValueError Builtin)"
    by (simp add: np_concatenate_last_def newaxis_def zeros_def)
  moreover have "check_niimg Map.empty (image_of_shape [1, 1, 1]) = Inr (image_of_shape [1, 1, 1])"
    by (simp add: image_of_shape_def is_a_niimg_Nifti1Image)
  moreover have "get_affine_attr (image_of_shape [1, 1, 1]) = Method identity_affine"
    by (simp add: image_of_shape_def Nifti1Image_def)
  ultimately have "concat_niimgs Map.empty
          (PyList [image_of_shape [1, 1, 1], image_of_shape [1, 1, 2]])
        = Inl (Raise ValueError Builtin)"
    unfolding concat_niimgs_def by simp
  then show ?thesis
    by (simp add: image_of_shape_def affine_of_Nifti1Image data_of_Nifti1Image ndim_def zeros_def)
qed

lemma stack_ab_value:
  "concat_niimgs Map.empty (PyList [image_a, image_b])
     = Inr (PyObj (Nifti1Image stacked_ab identity_affine))"
  by code_simp

theorem concat_niimgs_stack_witness:
  "[image_a, image_b] \<noteq> [] \<and>
   list_all (\<lambda>x. affine_of Map.empty x = Some identity_affine) [image_a, image_b] \<and>
   data_of Map.empty image_a = Some volume_a \<and> data_of Map.empty image_b = Some volume_b \<and>
   shape volume_a = [1, 1, 2] \<and> shape volume_b = [1, 1, 2] \<and>
   wf_array volume_a \<and> wf_array volume_b \<and>
   concat_niimgs Map.empty (PyList [image_a, image_b])
     = Inr (PyObj (Nifti1Image stacked_ab identity_affine)) \<and>
   shape stacked_ab = [1, 1, 2, 2] \<and>
   slice_last stacked_ab 0 = volume_a \<and> slice_last stacked_ab 1 = volume_b"
proof -
  let ?xs = "[image_a, image_b]"
  have da: "data_of Map.empty image_a = Some volume_a"
    and db: "data_of Map.empty image_b = Some volume_b"
    by (simp_all add: image_a_def image_b_def data_of_Nifti1Image)
  have sa: "shape volume_a = [1, 1, 2]" and sb: "shape volume_b = [1, 1, 2]"
    by (simp_all add: volume_a_def volume_b_def)
  have wa: "wf_array volume_a" and wb: "wf_array volume_b"
    by (simp_all add: volume_a_def volume_b_def wf_array_def)
  have h1: "?xs \<noteq> []" by simp
  have h2: "\<forall>x\<in>set ?xs. affine_of Map.empty x = Some identity_affine"
    by (simp add: image_a_def image_b_def affine_of_Nifti1Image)
  have h3: "\<forall>x\<in>set ?xs. \<exists>d. data_of Map.empty x = Some d \<and> shape d = [1, 1, 2] \<and> wf_array d"
    using da db sa sb wa wb by simp
  have h4: "length [1, 1, 2 :: nat] = 3" by simp
  from concat_niimgs_stack [OF h1 h2 h3 h4] obtain d
    where r: "concat_niimgs Map.empty (PyList ?xs) = Inr (PyObj (Nifti1Image d identity_affine))"
      and sd: "shape d = [1, 1, 2] @ [length ?xs]"
      and sl: "\<forall>t<length ?xs. data_of Map.empty (?xs ! t) = Some (slice_last d t)"
    by blast
  from r stack_ab_value have "Nifti1Image d identity_affine = Nifti1Image stacked_ab identity_affine"
    by simp
  then have d: "d = stacked_ab" by (simp add: Nifti1Image_def)
  have "data_of Map.empty (?xs ! 0) = Some (slice_last d 0)"
    using sl [rule_format, of 0] by simp
  moreover have "data_of Map.empty (?xs ! 1) = Some (slice_last d 1)"
    using sl [rule_format, of 1] by simp
  ultimately have s0: "slice_last stacked_ab 0 = volume_a"
    and s1: "slice_last stacked_ab 1 = volume_b"
    using da db d by simp_all
  from sd d have ss: "shape stacked_ab = [1, 1, 2, 2]" by simp
  have la: "list_all (\<lambda>x. affine_of Map.empty x = Some identity_affine) ?xs"
    using h2 by (simp add: list_all_iff)
  from r d have rr: "concat_niimgs Map.empty (PyList ?xs)
      = Inr (PyObj (Nifti1Image stacked_ab identity_affine))" by simp
  from h1 la da db sa sb wa wb rr ss s0 s1 show ?thesis by blast
qed

subsection \<open>The largest connected component\<close>

lemma card_label: "card {i. i < length xs \<and> xs ! i = l} = count_list xs l"
proof -
  have "count_list xs l = length (filter ((=) l) xs)"
    by (rule count_list_eq_length_filter)
  also have "\<dots> = card {i. i < length xs \<and> l = xs ! i}"
    by (rule length_filter_conv_card)
  also have "{i. i < length xs \<and> l = xs ! i} = {i. i < length xs \<and> xs ! i = l}"
    by auto
  finally show ?thesis by simp
qed

lemma first_index_member:
  "v \<in> set xs \<Longrightarrow> first_index v xs < length xs \<and> xs ! first_index v xs = v"
  by (induction xs) auto

lemma np_argmax_max:
  assumes "xs \<noteq> []"
  shows "np_argmax xs < length xs" and "xs ! np_argmax xs = Max (set xs)"
proof -
  from assms have "Max (set xs) \<in> set xs" by simp
  from first_index_member [OF this]
  show "np_argmax xs < length xs" and "xs ! np_argmax xs = Max (set xs)"
    by (simp_all add: np_argmax_def)
qed

lemma np_argmax_ge:
  assumes "i < length xs"
  shows "xs ! i \<le> xs ! np_argmax xs"
proof -
  from assms have ne: "xs \<noteq> []" by auto
  from assms have "xs ! i \<in> set xs" by simp
  then have "xs ! i \<le> Max (set xs)" by simp
  with np_argmax_max(2) [OF ne] show ?thesis by simp
qed

lemma length_np_bincount: "length (np_bincount xs) = Suc (Max (set xs))"
  by (simp add: np_bincount_def)

lemma np_bincount_nth:
  assumes "l \<le> Max (set xs)"
  shows "np_bincount xs ! l = count_list xs l"
proof -
  from assms have "l < Suc (Max (set xs))" by simp
  then have "map (\<lambda>l. count_list xs l) [0..<Suc (Max (set xs))] ! l = count_list xs l"
    by (simp only: nth_map_upt diff_zero add_0)
  then show ?thesis by (simp only: np_bincount_def)
qed

lemma labelling_background:
  assumes "is_labelling v labels nb" and "i < length (elems v)"
  shows "(elems labels ! i = 0) = (\<not> elems v ! i)"
  using assms unfolding is_labelling_def by blast

lemma labelling_length:
  assumes "is_labelling v labels nb"
  shows "length (elems labels) = length (elems v)" and "shape labels = shape v"
  using assms unfolding is_labelling_def by simp_all

lemma labelling_foreground_label:
  assumes "is_labelling v labels nb" and "i \<in> foreground v"
  shows "1 \<le> elems labels ! i" and "elems labels ! i \<le> nb"
proof -
  from assms(2) have i: "i < length (elems v)" and fg: "elems v ! i"
    by (simp_all add: foreground_def)
  from labelling_background [OF assms(1) i] fg show "1 \<le> elems labels ! i" by simp
  from assms(1) i show "elems labels ! i \<le> nb" unfolding is_labelling_def by blast
qed

lemma labelling_label_used:
  assumes "is_labelling v labels nb" and "1 \<le> l" and "l \<le> nb"
  shows "\<exists>i\<in>foreground v. elems labels ! i = l"
proof -
  from assms obtain i where i: "i < length (elems v)" and l: "elems labels ! i = l"
    unfolding is_labelling_def by blast
  from labelling_background [OF assms(1) i] l assms(2) have "elems v ! i" by simp
  with i l show ?thesis by (auto simp: foreground_def)
qed

lemma labelling_component:
  assumes "is_labelling v labels nb" and "i \<in> foreground v"
  shows "component v i = {j. j < length (elems labels) \<and> elems labels ! j = elems labels ! i}"
proof (rule set_eqI)
  fix j
  have conn: "(elems labels ! i = elems labels ! j) = connected v i j" if "j \<in> foreground v"
    using assms that unfolding is_labelling_def by blast
  show "(j \<in> component v i) =
          (j \<in> {j. j < length (elems labels) \<and> elems labels ! j = elems labels ! i})"
  proof (cases "j \<in> foreground v")
    case True
    then have "j < length (elems labels)"
      by (simp add: foreground_def labelling_length(1) [OF assms(1)])
    with True conn [OF True] show ?thesis
      by (auto simp: component_def)
  next
    case False
    have "\<not> (j < length (elems labels) \<and> elems labels ! j = elems labels ! i)"
    proof
      assume a: "j < length (elems labels) \<and> elems labels ! j = elems labels ! i"
      then have j: "j < length (elems v)" by (simp add: labelling_length(1) [OF assms(1)])
      from labelling_foreground_label(1) [OF assms] a have "elems labels ! j \<noteq> 0" by simp
      with labelling_background [OF assms(1) j] have "elems v ! j" by simp
      with j False show False by (simp add: foreground_def)
    qed
    with False show ?thesis by (simp add: component_def)
  qed
qed

lemma card_component:
  assumes "is_labelling v labels nb" and "i \<in> foreground v"
  shows "card (component v i) = count_list (elems labels) (elems labels ! i)"
  unfolding labelling_component [OF assms] by (rule card_label)

lemma component_subset: "component v i \<subseteq> foreground v"
  by (auto simp: component_def)

lemma finite_foreground: "finite (foreground v)"
  by (simp add: foreground_def)

lemma lcc_no_foreground:
  assumes "label volume = (labels, nb)" and "is_labelling volume labels nb"
    and "foreground volume = {}"
  shows "largest_connected_component label volume = Inl (Raise ValueError NoComponents)"
proof -
  have "nb = 0"
  proof (rule ccontr)
    assume "nb \<noteq> 0"
    then have "1 \<le> (1::nat)" and "1 \<le> nb" by simp_all
    from labelling_label_used [OF assms(2) this] assms(3) show False by simp
  qed
  with assms(1) show ?thesis by (simp add: largest_connected_component_def)
qed

lemma lcc_one_label:
  assumes "label volume = (labels, 1)" and "is_labelling volume labels 1"
    and "i \<in> foreground volume"
  shows "largest_connected_component label volume = Inr volume"
    and "component volume i = foreground volume"
proof -
  from assms(1) show "largest_connected_component label volume = Inr volume"
    by (simp add: largest_connected_component_def)
  have one: "elems labels ! j = 1" if "j \<in> foreground volume" for j
    using labelling_foreground_label [OF assms(2) that] by simp
  show "component volume i = foreground volume"
  proof
    show "component volume i \<subseteq> foreground volume" by (rule component_subset)
    show "foreground volume \<subseteq> component volume i"
    proof
      fix j assume j: "j \<in> foreground volume"
      then have "j < length (elems labels)"
        by (simp add: foreground_def labelling_length(1) [OF assms(2)])
      with one [OF j] one [OF assms(3)] show "j \<in> component volume i"
        unfolding labelling_component [OF assms(2,3)] by simp
    qed
  qed
qed

lemma lcc_many_labels:
  assumes "label volume = (labels, nb)" and "is_labelling volume labels nb"
    and "2 \<le> nb" and "i0 \<in> foreground volume"
  shows "\<exists>mask i. largest_connected_component label volume = Inr mask \<and>
           shape mask = shape volume \<and> length (elems mask) = length (elems volume) \<and>
           i \<in> foreground volume \<and> foreground mask = component volume i \<and>
           (\<forall>k\<in>foreground volume. card (component volume k) \<le> card (foreground mask))"
proof -
  let ?L = "elems labels"
  let ?counts = "(np_bincount ?L)[0 := 0]"
  let ?m = "np_argmax ?counts"
  let ?mask = "\<lparr>shape = shape labels, elems = map (\<lambda>l. l = ?m) ?L\<rparr>"
  have len: "length ?L = length (elems volume)" by (rule labelling_length(1) [OF assms(2)])
  from assms(4) have i0: "i0 < length ?L" by (simp add: foreground_def len)
  then have ne: "?L \<noteq> []" by auto
  have lcount: "length ?counts = Suc (Max (set ?L))" by (simp add: length_np_bincount)
  then have cne: "?counts \<noteq> []" by auto
  have count_at: "?counts ! l = count_list ?L l" if "1 \<le> l" and "l \<le> Max (set ?L)" for l
    using that by (simp add: np_bincount_nth)
  have count0: "?counts ! 0 = 0" by (simp add: length_np_bincount)
  have in_range: "?L ! k \<le> Max (set ?L)" if "k < length ?L" for k
    using that by simp
  have fg_count: "?counts ! (?L ! k) = count_list ?L (?L ! k)"
    and fg_pos: "1 \<le> count_list ?L (?L ! k)"
    if "k \<in> foreground volume" for k
  proof -
    from that have k: "k < length ?L" by (simp add: foreground_def len)
    from labelling_foreground_label(1) [OF assms(2) that] in_range [OF k]
    show "?counts ! (?L ! k) = count_list ?L (?L ! k)" by (rule count_at)
    from k have "?L ! k \<in> set ?L" by simp
    then have "count_list ?L (?L ! k) \<noteq> 0" by (simp add: count_list_0_iff)
    then show "1 \<le> count_list ?L (?L ! k)" by simp
  qed
  have m_len: "?m < length ?counts" using cne by (rule np_argmax_max(1))
  then have m_le: "?m \<le> Max (set ?L)" unfolding lcount by simp
  have m_max: "?counts ! l \<le> ?counts ! ?m" if "l \<le> Max (set ?L)" for l
  proof (rule np_argmax_ge)
    from that show "l < length ?counts" unfolding lcount by simp
  qed
  have "1 \<le> ?counts ! (?L ! i0)"
    unfolding fg_count [OF assms(4)] by (rule fg_pos [OF assms(4)])
  also have "\<dots> \<le> ?counts ! ?m" using in_range [OF i0] by (rule m_max)
  finally have m_pos: "1 \<le> ?counts ! ?m" .
  with count0 have m1: "1 \<le> ?m" by (cases "?m = 0") simp_all
  from count_at [OF m1 m_le] have cm: "?counts ! ?m = count_list ?L ?m" .
  with m_pos have "count_list ?L ?m \<noteq> 0" by simp
  then have "?m \<in> set ?L" by (simp add: count_list_0_iff)
  then obtain i where i: "i < length ?L" and li: "?L ! i = ?m"
    by (auto simp: in_set_conv_nth)
  from labelling_background [OF assms(2), of i] i li m1 len
  have ifg: "i \<in> foreground volume" by (simp add: foreground_def)
  have fgm: "foreground ?mask = component volume i"
    unfolding labelling_component [OF assms(2) ifg] li
    by (auto simp: foreground_def)
  have card_m: "card (foreground ?mask) = ?counts ! ?m"
    unfolding fgm card_component [OF assms(2) ifg] li cm ..
  have largest: "\<forall>k\<in>foreground volume. card (component volume k) \<le> card (foreground ?mask)"
  proof
    fix k assume k: "k \<in> foreground volume"
    then have kl: "k < length ?L" by (simp add: foreground_def len)
    have "card (component volume k) = ?counts ! (?L ! k)"
      unfolding card_component [OF assms(2) k] fg_count [OF k] ..
    also have "\<dots> \<le> ?counts ! ?m" using in_range [OF kl] by (rule m_max)
    finally show "card (component volume k) \<le> card (foreground ?mask)"
      by (simp only: card_m)
  qed
  have res: "largest_connected_component label volume = Inr ?mask"
    using assms(1,3) ne by (simp add: largest_connected_component_def Let_def)
  have "shape ?mask = shape volume" by (simp add: labelling_length(2) [OF assms(2)])
  moreover have "length (elems ?mask) = length (elems volume)" by (simp add: len)
  ultimately show ?thesis using res ifg fgm largest by blast
qed

text \<open>
  C8. Given what \<open>ndimage.label\<close> returns for the volume (a labelling of its connected
  components): when the volume has no foreground voxel, \<open>largest_connected_component\<close>
  raises the \<open>ValueError\<close>; when it has one, the result is a boolean mask of the shape of
  the volume whose foreground lies within the foreground of the volume, is exactly one
  connected component of it, and is at least as large as every connected component.
\<close>

theorem largest_connected_component_correct:
  assumes "label volume = (labels, label_nb)" and "is_labelling volume labels label_nb"
  shows "(foreground volume = {} \<longrightarrow>
            largest_connected_component label volume = Inl (Raise ValueError NoComponents)) \<and>
         (foreground volume \<noteq> {} \<longrightarrow>
            (\<exists>mask i. largest_connected_component label volume = Inr mask \<and>
               shape mask = shape volume \<and> length (elems mask) = length (elems volume) \<and>
               foreground mask \<subseteq> foreground volume \<and>
               i \<in> foreground volume \<and> foreground mask = component volume i \<and>
               (\<forall>k\<in>foreground volume. card (component volume k) \<le> card (foreground mask))))"
proof (intro conjI impI)
  assume "foreground volume = {}"
  then show "largest_connected_component label volume = Inl (Raise ValueError NoComponents)"
    using lcc_no_foreground [of label volume labels label_nb] assms by simp
next
  assume "foreground volume \<noteq> {}"
  then obtain i0 where i0: "i0 \<in> foreground volume" by blast
  from labelling_foreground_label [OF assms(2) i0] have nb: "1 \<le> label_nb" by simp
  show "\<exists>mask i. largest_connected_component label volume = Inr mask \<and>
               shape mask = shape volume \<and> length (elems mask) = length (elems volume) \<and>
               foreground mask \<subseteq> foreground volume \<and>
               i \<in> foreground volume \<and> foreground mask = component volume i \<and>
               (\<forall>k\<in>foreground volume. card (component volume k) \<le> card (foreground mask))"
  proof (cases "label_nb = 1")
    case True
    from assms True have l1: "label volume = (labels, 1)" and l2: "is_labelling volume labels 1"
      by simp_all
    have r: "largest_connected_component label volume = Inr volume"
      using lcc_one_label(1) [of label volume labels i0] l1 l2 i0 by simp
    have c: "component volume i0 = foreground volume"
      using lcc_one_label(2) [of label volume labels i0] l1 l2 i0 by simp
    have "\<forall>k\<in>foreground volume. card (component volume k) \<le> card (foreground volume)"
      by (intro ballI card_mono finite_foreground component_subset)
    with r c i0 show ?thesis by auto
  next
    case False
    with nb have "2 \<le> label_nb" by simp
    from lcc_many_labels [of label volume labels label_nb i0, OF assms this i0] obtain mask i
      where m: "largest_connected_component label volume = Inr mask"
        "shape mask = shape volume" "length (elems mask) = length (elems volume)"
        "i \<in> foreground volume" "foreground mask = component volume i"
        "\<forall>k\<in>foreground volume. card (component volume k) \<le> card (foreground mask)"
      by blast
    from m(5) have "foreground mask \<subseteq> foreground volume"
      by (simp add: component_subset)
    with m show ?thesis by blast
  qed
qed

lemma foreground_two_blobs: "foreground two_blobs = {0, 2, 3}"
proof (rule set_eqI)
  fix i :: nat
  consider "i = 0" | "i = 1" | "i = 2" | "i = 3" | "4 \<le> i" by linarith
  then show "(i \<in> foreground two_blobs) = (i \<in> {0, 2, 3})"
  proof cases
    case 1
    then show ?thesis by (simp add: foreground_def two_blobs_def)
  next
    case 2
    then show ?thesis by (simp add: foreground_def two_blobs_def)
  next
    case 3
    then show ?thesis by (simp add: foreground_def two_blobs_def)
  next
    case 4
    then show ?thesis by (simp add: foreground_def two_blobs_def)
  next
    case 5
    then show ?thesis by (simp add: foreground_def two_blobs_def)
  qed
qed

lemma neighbours_two_blobs:
  "\<not> neighbours [1, 1, 4] 0 0" "\<not> neighbours [1, 1, 4] 0 2" "\<not> neighbours [1, 1, 4] 0 3"
  "\<not> neighbours [1, 1, 4] 2 0" "\<not> neighbours [1, 1, 4] 3 0"
  "neighbours [1, 1, 4] 2 3" "neighbours [1, 1, 4] 3 2"
  by code_simp+

lemma shape_two_blobs: "shape two_blobs = [1, 1, 4]"
  by (simp add: two_blobs_def)

lemma no_step_from_0:
  "(0, b) \<notin> {(a, b). a \<in> foreground two_blobs \<and> b \<in> foreground two_blobs \<and>
                       neighbours (shape two_blobs) a b}"
proof
  assume "(0, b) \<in> {(a, b). a \<in> foreground two_blobs \<and> b \<in> foreground two_blobs \<and>
                       neighbours (shape two_blobs) a b}"
  then have b: "b \<in> foreground two_blobs" and n: "neighbours (shape two_blobs) 0 b"
    by blast+
  from b have "b = 0 \<or> b = 2 \<or> b = 3" unfolding foreground_two_blobs by blast
  with n show False unfolding shape_two_blobs using neighbours_two_blobs by blast
qed

lemma no_step_to_0:
  "(a, 0) \<notin> {(a, b). a \<in> foreground two_blobs \<and> b \<in> foreground two_blobs \<and>
                       neighbours (shape two_blobs) a b}"
proof
  assume "(a, 0) \<in> {(a, b). a \<in> foreground two_blobs \<and> b \<in> foreground two_blobs \<and>
                       neighbours (shape two_blobs) a b}"
  then have a: "a \<in> foreground two_blobs" and n: "neighbours (shape two_blobs) a 0"
    by blast+
  from a have "a = 0 \<or> a = 2 \<or> a = 3" unfolding foreground_two_blobs by blast
  with n show False unfolding shape_two_blobs using neighbours_two_blobs by blast
qed

lemma connected_from_0: "connected two_blobs 0 j = (j = 0)"
proof
  assume "connected two_blobs 0 j"
  then show "j = 0"
    unfolding connected_def
    by (rule converse_rtranclE) (simp_all only: no_step_from_0)
next
  assume "j = 0"
  then show "connected two_blobs 0 j" by (simp add: connected_def)
qed

lemma connected_to_0: "connected two_blobs j 0 = (j = 0)"
proof
  assume "connected two_blobs j 0"
  then show "j = 0"
    unfolding connected_def
    by (rule rtranclE) (simp_all only: no_step_to_0)
next
  assume "j = 0"
  then show "connected two_blobs j 0" by (simp add: connected_def)
qed

lemma connected_2_3: "connected two_blobs 2 3" and connected_3_2: "connected two_blobs 3 2"
proof -
  note s = shape_two_blobs
  have "(2, 3) \<in> {(a, b). a \<in> foreground two_blobs \<and> b \<in> foreground two_blobs \<and>
                       neighbours (shape two_blobs) a b}"
    unfolding s foreground_two_blobs using neighbours_two_blobs by simp
  then show "connected two_blobs 2 3" unfolding connected_def by (rule r_into_rtrancl)
  have "(3, 2) \<in> {(a, b). a \<in> foreground two_blobs \<and> b \<in> foreground two_blobs \<and>
                       neighbours (shape two_blobs) a b}"
    unfolding s foreground_two_blobs using neighbours_two_blobs by simp
  then show "connected two_blobs 3 2" unfolding connected_def by (rule r_into_rtrancl)
qed

lemma connected_refl: "connected v i i"
  by (simp add: connected_def)

lemma two_blobs_labels_nth:
  "elems two_blobs_labels ! 0 = 1" "elems two_blobs_labels ! 1 = 0"
  "elems two_blobs_labels ! 2 = 2" "elems two_blobs_labels ! 3 = 2"
  by (simp_all add: two_blobs_labels_def)

lemma two_blobs_nth:
  "elems two_blobs ! 0" "\<not> elems two_blobs ! 1" "elems two_blobs ! 2" "elems two_blobs ! 3"
  by (simp_all add: two_blobs_def)

lemma less_4_cases: "i < (4::nat) \<Longrightarrow> i = 0 \<or> i = 1 \<or> i = 2 \<or> i = 3"
  by linarith

lemma is_labelling_two_blobs: "is_labelling two_blobs two_blobs_labels 2"
proof -
  have len: "length (elems two_blobs) = 4" by (simp add: two_blobs_def)
  have a: "shape two_blobs_labels = shape two_blobs"
    by (simp add: two_blobs_def two_blobs_labels_def)
  have b: "length (elems two_blobs_labels) = length (elems two_blobs)"
    by (simp add: two_blobs_def two_blobs_labels_def)
  have c: "\<forall>i<length (elems two_blobs).
             (elems two_blobs_labels ! i = 0) = (\<not> elems two_blobs ! i)"
    unfolding len using two_blobs_labels_nth two_blobs_nth
    by (auto dest!: less_4_cases)
  have d: "\<forall>i<length (elems two_blobs). elems two_blobs_labels ! i \<le> 2"
    unfolding len using two_blobs_labels_nth
    by (auto dest!: less_4_cases)
  have e: "\<forall>l. 1 \<le> l \<and> l \<le> 2 \<longrightarrow> (\<exists>i<length (elems two_blobs). elems two_blobs_labels ! i = l)"
  proof (intro allI impI)
    fix l :: nat assume "1 \<le> l \<and> l \<le> 2"
    then consider "l = 1" | "l = 2" by linarith
    then show "\<exists>i<length (elems two_blobs). elems two_blobs_labels ! i = l"
    proof cases
      case 1
      then show ?thesis unfolding len using two_blobs_labels_nth(1) by (intro exI [of _ 0]) simp
    next
      case 2
      then show ?thesis unfolding len using two_blobs_labels_nth(3) by (intro exI [of _ 2]) simp
    qed
  qed
  have f: "\<forall>i\<in>foreground two_blobs. \<forall>j\<in>foreground two_blobs.
             (elems two_blobs_labels ! i = elems two_blobs_labels ! j) = connected two_blobs i j"
    unfolding foreground_two_blobs
    using two_blobs_labels_nth connected_from_0 connected_to_0 connected_2_3 connected_3_2
    by (simp add: connected_refl)
  from a b c d e f show ?thesis unfolding is_labelling_def by blast
qed

lemma less_2_cases: "i < (2::nat) \<Longrightarrow> i = 0 \<or> i = 1"
  by linarith

lemma foreground_empty_volume: "foreground empty_volume = {}"
proof -
  have len: "length (elems empty_volume) = 2" by (simp add: empty_volume_def)
  have v: "\<not> elems empty_volume ! 0" "\<not> elems empty_volume ! 1"
    by (simp_all add: empty_volume_def)
  show ?thesis
    unfolding foreground_def len using v by (auto dest!: less_2_cases)
qed

lemma is_labelling_empty_volume: "is_labelling empty_volume empty_volume_labels 0"
proof -
  have len: "length (elems empty_volume) = 2" by (simp add: empty_volume_def)
  have v: "\<not> elems empty_volume ! 0" "\<not> elems empty_volume ! 1"
    by (simp_all add: empty_volume_def)
  have l: "elems empty_volume_labels ! 0 = 0" "elems empty_volume_labels ! 1 = 0"
    by (simp_all add: empty_volume_labels_def)
  have a: "shape empty_volume_labels = shape empty_volume"
    and b: "length (elems empty_volume_labels) = length (elems empty_volume)"
    by (simp_all add: empty_volume_def empty_volume_labels_def)
  have c: "\<forall>i<length (elems empty_volume).
             (elems empty_volume_labels ! i = 0) = (\<not> elems empty_volume ! i)"
    unfolding len using v l by (auto dest!: less_2_cases)
  have d: "\<forall>i<length (elems empty_volume). elems empty_volume_labels ! i \<le> 0"
    unfolding len using l by (auto dest!: less_2_cases)
  from a b c d show ?thesis
    unfolding is_labelling_def foreground_empty_volume by simp
qed

lemma largest_blob_value:
  "largest_connected_component (\<lambda>v. (two_blobs_labels, 2)) two_blobs = Inr largest_blob"
  by code_simp

theorem largest_connected_component_correct_witness:
  "is_labelling two_blobs two_blobs_labels 2 \<and>
   foreground two_blobs \<noteq> {} \<and>
   largest_connected_component (\<lambda>v. (two_blobs_labels, 2)) two_blobs = Inr largest_blob \<and>
   foreground largest_blob \<subseteq> foreground two_blobs \<and>
   card (component two_blobs 0) \<le> card (foreground largest_blob) \<and>
   is_labelling empty_volume empty_volume_labels 0 \<and>
   foreground empty_volume = {} \<and>
   largest_connected_component (\<lambda>v. (empty_volume_labels, 0)) empty_volume
     = Inl (Raise ValueError NoComponents)"
proof -
  have ne: "foreground two_blobs \<noteq> {}" and z: "0 \<in> foreground two_blobs"
    unfolding foreground_two_blobs by simp_all
  have lab: "(\<lambda>v. (two_blobs_labels, 2)) two_blobs = (two_blobs_labels, 2)" by simp
  from largest_connected_component_correct [of "\<lambda>v. (two_blobs_labels, 2)" two_blobs,
      OF lab is_labelling_two_blobs] ne
  obtain mask
    where m: "largest_connected_component (\<lambda>v. (two_blobs_labels, 2)) two_blobs = Inr mask"
      and sub: "foreground mask \<subseteq> foreground two_blobs"
      and big: "\<forall>k\<in>foreground two_blobs. card (component two_blobs k) \<le> card (foreground mask)"
    by blast
  from m largest_blob_value have mask: "mask = largest_blob" by simp
  from big z have c0: "card (component two_blobs 0) \<le> card (foreground mask)" by blast
  note fg = foreground_empty_volume
  have lab0: "(\<lambda>v. (empty_volume_labels, 0)) empty_volume = (empty_volume_labels, 0)" by simp
  from largest_connected_component_correct [of "\<lambda>v. (empty_volume_labels, 0)" empty_volume,
      OF lab0 is_labelling_empty_volume] fg
  have e: "largest_connected_component (\<lambda>v. (empty_volume_labels, 0)) empty_volume
     = Inl (Raise ValueError NoComponents)"
    by blast
  from is_labelling_two_blobs ne m sub c0 is_labelling_empty_volume fg e
  show ?thesis unfolding mask by blast
qed

subsection \<open>Applying and undoing a mask\<close>

lemma filter_upt_split:
  assumes "v < n"
  shows "filter P [0..<n] = filter P [0..<v] @ filter P [v..<n]"
proof -
  from assms obtain k where n: "n = v + k" using less_imp_add_positive by blast
  have "[0..<v + k] = [0..<v] @ [v..<v + k]"
    by (rule upt_add_eq_append) simp
  then show ?thesis unfolding n by (simp only: filter_append)
qed

lemma filter_upt_nth:
  assumes "v < n" and "P v"
  shows "filter P [0..<n] ! length (filter P [0..<v]) = v"
    and "length (filter P [0..<v]) < length (filter P [0..<n])"
proof -
  from assms(1) have "[v..<n] = v # [Suc v..<n]" by (rule upt_conv_Cons)
  with assms(2) have tl: "filter P [v..<n] = v # filter P [Suc v..<n]" by simp
  show "filter P [0..<n] ! length (filter P [0..<v]) = v"
    unfolding filter_upt_split [OF assms(1)] tl by (simp only: nth_append_length)
  show "length (filter P [0..<v]) < length (filter P [0..<n])"
    unfolding filter_upt_split [OF assms(1)] tl by simp
qed

lemma concat_rows_upt:
  "concat (map (\<lambda>v. map (\<lambda>t. h (v * m + t)) [0..<m]) [0..<n]) = map h [0..<n * m]"
proof (induction n)
  case 0
  show ?case by simp
next
  case (Suc n)
  have shift: "[n * m..<n * m + m] = map (\<lambda>t. t + n * m) [0..<m]"
    using map_add_upt [of "n * m" m] by (simp only: add.commute)
  have "map h [n * m..<n * m + m] = map (\<lambda>t. h (n * m + t)) [0..<m]"
    unfolding shift by (simp add: comp_def add.commute)
  moreover have "[0..<n * m + m] = [0..<n * m] @ [n * m..<n * m + m]"
    by (rule upt_add_eq_append) simp
  moreover have "Suc n * m = n * m + m" by simp
  ultimately have "map h [0..<Suc n * m] = map h [0..<n * m] @ map (\<lambda>t. h (n * m + t)) [0..<m]"
    by (simp only: map_append)
  with Suc.IH show ?case by simp
qed

lemma apply_mask_nth:
  assumes "v < length (elems m)" and "elems m ! v" and "t < last (shape d)"
  shows "elems (apply_mask d m) ! (t * length (mask_indices m) + mask_rank m v)
           = elems d ! (v * last (shape d) + t)"
proof -
  let ?T = "last (shape d)"
  let ?vox = "mask_indices m"
  let ?f = "\<lambda>t. map (\<lambda>v. elems d ! (v * ?T + t)) ?vox"
  have rank: "mask_rank m v < length ?vox" and at: "?vox ! mask_rank m v = v"
    using filter_upt_nth [of v "length (elems m)" "\<lambda>u. elems m ! u"] assms(1,2)
    by (simp_all add: mask_rank_def mask_indices_def)
  have "concat (map ?f [0..<?T]) ! (t * length ?vox + mask_rank m v) = ?f t ! mask_rank m v"
    using assms(3) rank by (intro nth_concat_uniform) simp_all
  also have "\<dots> = elems d ! (v * ?T + t)"
    using rank at by simp
  finally show ?thesis by (simp add: apply_mask_def Let_def)
qed

lemma shape_apply_mask:
  "shape (apply_mask d m) = [last (shape d), length (mask_indices m)]"
  by (simp add: apply_mask_def Let_def)

lemma roundtrip_elems:
  fixes d :: "'a::zero ndarray"
  shows "concat (map (\<lambda>v. map (\<lambda>t. if elems m ! v
                                     then elems (apply_mask d m) !
                                            (t * length (mask_indices m) + mask_rank m v)
                                     else 0)
                               [0..<last (shape d)])
                      [0..<length (elems m)])
         = map (\<lambda>i. if elems m ! (i div last (shape d)) then elems d ! i else 0)
               [0..<length (elems m) * last (shape d)]"
proof -
  let ?T = "last (shape d)"
  let ?h = "\<lambda>i. if elems m ! (i div ?T) then elems d ! i else (0::'a)"
  have row: "map (\<lambda>t. if elems m ! v
                       then elems (apply_mask d m) ! (t * length (mask_indices m) + mask_rank m v)
                       else 0) [0..<?T]
             = map (\<lambda>t. ?h (v * ?T + t)) [0..<?T]"
    if v: "v < length (elems m)" for v
  proof (rule map_cong [OF refl])
    fix t assume "t \<in> set [0..<?T]"
    then have t: "t < ?T" by simp
    then have dv: "(v * ?T + t) div ?T = v" by simp
    show "(if elems m ! v
           then elems (apply_mask d m) ! (t * length (mask_indices m) + mask_rank m v)
           else 0) = ?h (v * ?T + t)"
    proof (cases "elems m ! v")
      case True
      with apply_mask_nth [OF v True t] dv show ?thesis by simp
    next
      case False
      with dv show ?thesis by simp
    qed
  qed
  have "map (\<lambda>v. map (\<lambda>t. if elems m ! v
                        then elems (apply_mask d m) ! (t * length (mask_indices m) + mask_rank m v)
                        else 0) [0..<?T]) [0..<length (elems m)]
        = map (\<lambda>v. map (\<lambda>t. ?h (v * ?T + t)) [0..<?T]) [0..<length (elems m)]"
  proof (rule map_cong [OF refl])
    fix v assume "v \<in> set [0..<length (elems m)]"
    then have "v < length (elems m)" by simp
    then show "map (\<lambda>t. if elems m ! v
                       then elems (apply_mask d m) ! (t * length (mask_indices m) + mask_rank m v)
                       else 0) [0..<?T]
             = map (\<lambda>t. ?h (v * ?T + t)) [0..<?T]" by (rule row)
  qed
  then have "concat (map (\<lambda>v. map (\<lambda>t. if elems m ! v
                        then elems (apply_mask d m) ! (t * length (mask_indices m) + mask_rank m v)
                        else 0) [0..<?T]) [0..<length (elems m)])
        = concat (map (\<lambda>v. map (\<lambda>t. ?h (v * ?T + t)) [0..<?T]) [0..<length (elems m)])"
    by (rule arg_cong)
  also have "\<dots> = map ?h [0..<length (elems m) * ?T]"
    by (rule concat_rows_upt)
  finally show ?thesis .
qed

text \<open>
  C2. For every boolean mask and every data array (both well-formed) whose shape is the
  shape of the mask followed by the observation axis (a 3D mask and 4D data in particular),
  \<open>unmask (apply_mask data mask) mask\<close> is the data with every voxel outside the mask set
  to zero: inside the mask every value is the original one.
\<close>

theorem unmask_apply_mask:
  fixes d :: "'a::zero ndarray"
  assumes "wf_array m" and "wf_array d" and "shape d = shape m @ [n_obs]"
  shows "unmask (apply_mask d m) m = Inr (zero_outside d m) \<and>
         shape (zero_outside d m) = shape d \<and>
         length (elems (zero_outside d m)) = length (elems d) \<and>
         (\<forall>i<length (elems d).
            elems (zero_outside d m) ! i = (if elems m ! (i div n_obs) then elems d ! i else 0))"
proof -
  have last: "last (shape d) = n_obs" by (simp add: assms(3))
  have len: "length (elems d) = length (elems m) * n_obs"
    using assms by (simp add: wf_array_def)
  have sh: "shape (apply_mask d m) = [n_obs, length (mask_indices m)]"
    by (simp add: shape_apply_mask last)
  have el: "concat (map (\<lambda>v. map (\<lambda>t. if elems m ! v
                                     then elems (apply_mask d m) !
                                            (t * length (mask_indices m) + mask_rank m v)
                                     else 0)
                               [0..<n_obs])
                      [0..<length (elems m)])
         = map (\<lambda>i. if elems m ! (i div n_obs) then elems d ! i else 0)
               [0..<length (elems d)]"
    using roundtrip_elems [of m d] unfolding last len .
  have "unmask (apply_mask d m) m =
          Inr \<lparr>shape = shape m @ [n_obs],
               elems = map (\<lambda>i. if elems m ! (i div n_obs) then elems d ! i else 0)
                           [0..<length (elems d)]\<rparr>"
    unfolding unmask_def Let_def sh using el by simp
  also have "\<lparr>shape = shape m @ [n_obs],
               elems = map (\<lambda>i. if elems m ! (i div n_obs) then elems d ! i else 0)
                           [0..<length (elems d)]\<rparr> = zero_outside d m"
    unfolding zero_outside_def last using assms(3) by simp
  finally have rt: "unmask (apply_mask d m) m = Inr (zero_outside d m)" .
  have z: "elems (zero_outside d m)
             = map (\<lambda>i. if elems m ! (i div n_obs) then elems d ! i else 0) [0..<length (elems d)]"
    by (simp add: zero_outside_def last)
  have "shape (zero_outside d m) = shape d" by (simp add: zero_outside_def)
  moreover have "length (elems (zero_outside d m)) = length (elems d)" by (simp add: z)
  moreover have "\<forall>i<length (elems d).
            elems (zero_outside d m) ! i = (if elems m ! (i div n_obs) then elems d ! i else 0)"
    by (simp add: z)
  ultimately show ?thesis using rt by blast
qed

lemma series_data_zeroed_value: "zero_outside series_data half_mask = series_data_zeroed"
  by code_simp

theorem unmask_apply_mask_witness:
  "wf_array half_mask \<and> wf_array series_data \<and> shape series_data = shape half_mask @ [2] \<and>
   unmask (apply_mask series_data half_mask) half_mask = Inr series_data_zeroed"
proof -
  have a: "wf_array half_mask" by (simp add: wf_array_def half_mask_def)
  have b: "wf_array series_data" by (simp add: wf_array_def series_data_def)
  have c: "shape series_data = shape half_mask @ [2]"
    by (simp add: series_data_def half_mask_def)
  from unmask_apply_mask [OF a b c]
  have "unmask (apply_mask series_data half_mask) half_mask
          = Inr (zero_outside series_data half_mask)"
    by blast
  with a b c show ?thesis by (simp only: series_data_zeroed_value simp_thms)
qed

subsection \<open>Combining masks\<close>

lemma length_filter_all: "(length (filter P xs) = length xs) = (\<forall>x\<in>set xs. P x)"
proof
  assume "length (filter P xs) = length xs"
  then have "filter P xs = xs" 
    by (induction xs) (auto simp: le_imp_less_Suc [THEN less_imp_neq] length_filter_le split: if_splits)
  then show "\<forall>x\<in>set xs. P x" by (simp add: filter_id_conv)
next
  assume "\<forall>x\<in>set xs. P x"
  then show "length (filter P xs) = length xs" by simp
qed

lemma vote_count_all:
  "(vote_count masks v = length masks) = (\<forall>m\<in>set masks. elems m ! v)"
  unfolding vote_count_def by (rule length_filter_all)

lemma intersect_masks_unconnected:
  assumes "masks \<noteq> []" and "\<forall>m\<in>set masks. shape m = s \<and> length (elems m) = n"
  shows "intersect_masks label masks threshold False =
           Inr \<lparr>shape = s,
                elems = map (\<lambda>v. if threshold = 1 then vote_count masks v = length masks
                                  else threshold < vote_fraction masks v) [0..<n]\<rparr>"
proof -
  from assms(1) obtain first_mask rest where ms: "masks = first_mask # rest"
    by (cases masks) simp_all
  from assms(2) have f: "shape first_mask = s" "length (elems first_mask) = n"
    by (simp_all add: ms)
  have "\<not> list_ex (\<lambda>m. shape m \<noteq> shape first_mask) masks"
    using assms(2) f by (simp add: list_ex_iff)
  then show ?thesis
    unfolding intersect_masks_def Let_def using f by (simp add: ms)
qed

lemma vote_count_pair:
  "vote_count [a, b] v = (if elems a ! v then 1 else 0) + (if elems b ! v then 1 else 0)"
  by (simp add: vote_count_def)

lemma pair_all: "(vote_count [a, b] v = length [a, b]) = (elems a ! v \<and> elems b ! v)"
  by (simp add: vote_count_pair)

lemma pair_any: "((0::rat) < vote_fraction [a, b] v) = (elems a ! v \<or> elems b ! v)"
  by (simp add: vote_fraction_def vote_count_pair)

text \<open>
  C3, amended. For every non-empty sequence of same-shaped boolean masks and every
  threshold in [0, 1], \<open>intersect_masks\<close> without the connected-component filter marks a
  voxel foreground exactly when the fraction of masks marking it strictly exceeds the
  threshold if the threshold is below 1, and exactly when all masks mark it if the
  threshold is 1. For two masks the threshold 1 gives their voxel-wise AND and the
  threshold 0 their voxel-wise OR.
\<close>

theorem intersect_masks_threshold:
  assumes "masks \<noteq> []" and "\<forall>m\<in>set masks. shape m = s \<and> length (elems m) = n"
    and "0 \<le> threshold" and "threshold \<le> 1"
    and "shape a = shape b" and "length (elems a) = length (elems b)"
  shows "(\<exists>r. intersect_masks label masks threshold False = Inr r \<and>
              shape r = s \<and> length (elems r) = n \<and>
              (\<forall>v<n. elems r ! v =
                 (if threshold < 1 then threshold < vote_fraction masks v
                  else (\<forall>m\<in>set masks. elems m ! v)))) \<and>
         intersect_masks label [a, b] 1 False = Inr (mask_and a b) \<and>
         intersect_masks label [a, b] 0 False = Inr (mask_or a b)"
proof (intro conjI)
  let ?r = "\<lparr>shape = s,
             elems = map (\<lambda>v. if threshold = 1 then vote_count masks v = length masks
                               else threshold < vote_fraction masks v) [0..<n]\<rparr>"
  have r: "intersect_masks label masks threshold False = Inr ?r"
    using assms(1,2) by (rule intersect_masks_unconnected)
  have "\<forall>v<n. elems ?r ! v =
          (if threshold < 1 then threshold < vote_fraction masks v
           else (\<forall>m\<in>set masks. elems m ! v))"
  proof (intro allI impI)
    fix v assume v: "v < n"
    show "elems ?r ! v =
          (if threshold < 1 then threshold < vote_fraction masks v
           else (\<forall>m\<in>set masks. elems m ! v))"
    proof (cases "threshold < 1")
      case True
      with v show ?thesis by simp
    next
      case False
      with assms(4) have "threshold = 1" by simp
      with v show ?thesis by (simp add: vote_count_all)
    qed
  qed
  moreover have "shape ?r = s" and "length (elems ?r) = n" by simp_all
  ultimately show "\<exists>r. intersect_masks label masks threshold False = Inr r \<and>
              shape r = s \<and> length (elems r) = n \<and>
              (\<forall>v<n. elems r ! v =
                 (if threshold < 1 then threshold < vote_fraction masks v
                  else (\<forall>m\<in>set masks. elems m ! v)))"
    using r by blast
next
  have two: "[a, b] \<noteq> []"
    and same: "\<forall>m\<in>set [a, b]. shape m = shape a \<and> length (elems m) = length (elems a)"
    using assms(5,6) by simp_all
  have "intersect_masks label [a, b] 1 False =
          Inr \<lparr>shape = shape a,
               elems = map (\<lambda>v. vote_count [a, b] v = length [a, b]) [0..<length (elems a)]\<rparr>"
    using intersect_masks_unconnected [OF two same, of label 1] by (simp only: if_True refl)
  then show "intersect_masks label [a, b] 1 False = Inr (mask_and a b)"
    unfolding pair_all mask_and_def .
next
  have two: "[a, b] \<noteq> []"
    and same: "\<forall>m\<in>set [a, b]. shape m = shape a \<and> length (elems m) = length (elems a)"
    using assms(5,6) by simp_all
  have ne: "((0::rat) = 1) = False" by simp
  have "intersect_masks label [a, b] 0 False =
          Inr \<lparr>shape = shape a,
               elems = map (\<lambda>v. 0 < vote_fraction [a, b] v) [0..<length (elems a)]\<rparr>"
    using intersect_masks_unconnected [OF two same, of label 0] by (simp only: ne if_False)
  then show "intersect_masks label [a, b] 0 False = Inr (mask_or a b)"
    unfolding pair_any mask_or_def .
qed

lemma mask_or_ends: "mask_or left_mask right_mask = both_ends"
  by code_simp

lemma mask_and_ends: "mask_and left_mask right_mask = no_voxel"
  by code_simp

lemma less_3_cases: "i < (3::nat) \<Longrightarrow> i = 0 \<or> i = 1 \<or> i = 2"
  by linarith

lemma both_ends_nth: "elems both_ends ! 0" "\<not> elems both_ends ! 1" "elems both_ends ! 2"
  by (simp_all add: both_ends_def)

lemma ends_labels_nth:
  "elems ends_labels ! 0 = 1" "elems ends_labels ! 1 = 0" "elems ends_labels ! 2 = 2"
  by (simp_all add: ends_labels_def)

lemma foreground_both_ends: "foreground both_ends = {0, 2}"
proof (rule set_eqI)
  fix i :: nat
  have len: "length (elems both_ends) = 3" by (simp add: both_ends_def)
  consider "i = 0" | "i = 1" | "i = 2" | "3 \<le> i" by linarith
  then show "(i \<in> foreground both_ends) = (i \<in> {0, 2})"
  proof cases
    case 1
    then show ?thesis using both_ends_nth by (simp add: foreground_def len)
  next
    case 2
    then show ?thesis using both_ends_nth by (simp add: foreground_def len)
  next
    case 3
    then show ?thesis using both_ends_nth by (simp add: foreground_def len)
  next
    case 4
    then show ?thesis by (simp add: foreground_def len)
  qed
qed

lemma neighbours_both_ends:
  "\<not> neighbours [1, 1, 3] 0 0" "\<not> neighbours [1, 1, 3] 0 2"
  "\<not> neighbours [1, 1, 3] 2 0" "\<not> neighbours [1, 1, 3] 2 2"
  by code_simp+

lemma no_step_both_ends:
  "{(a, b). a \<in> foreground both_ends \<and> b \<in> foreground both_ends \<and>
            neighbours (shape both_ends) a b} = {}"
proof -
  have s: "shape both_ends = [1, 1, 3]" by (simp add: both_ends_def)
  have "\<not> neighbours [1, 1, 3] a b" if "a = 0 \<or> a = 2" and "b = 0 \<or> b = 2" for a b :: nat
    using that neighbours_both_ends by blast
  then show ?thesis unfolding s foreground_both_ends by blast
qed

lemma connected_both_ends: "connected both_ends i j = (i = j)"
  unfolding connected_def no_step_both_ends by simp

lemma is_labelling_both_ends: "is_labelling both_ends ends_labels 2"
proof -
  have len: "length (elems both_ends) = 3" by (simp add: both_ends_def)
  have a: "shape ends_labels = shape both_ends"
    and b: "length (elems ends_labels) = length (elems both_ends)"
    by (simp_all add: both_ends_def ends_labels_def)
  have c: "\<forall>i<length (elems both_ends).
             (elems ends_labels ! i = 0) = (\<not> elems both_ends ! i)"
    unfolding len using ends_labels_nth both_ends_nth by (auto dest!: less_3_cases)
  have d: "\<forall>i<length (elems both_ends). elems ends_labels ! i \<le> 2"
    unfolding len using ends_labels_nth by (auto dest!: less_3_cases)
  have e: "\<forall>l. 1 \<le> l \<and> l \<le> 2 \<longrightarrow> (\<exists>i<length (elems both_ends). elems ends_labels ! i = l)"
  proof (intro allI impI)
    fix l :: nat assume "1 \<le> l \<and> l \<le> 2"
    then consider "l = 1" | "l = 2" by linarith
    then show "\<exists>i<length (elems both_ends). elems ends_labels ! i = l"
    proof cases
      case 1
      then show ?thesis unfolding len using ends_labels_nth(1) by (intro exI [of _ 0]) simp
    next
      case 2
      then show ?thesis unfolding len using ends_labels_nth(3) by (intro exI [of _ 2]) simp
    qed
  qed
  have f: "\<forall>i\<in>foreground both_ends. \<forall>j\<in>foreground both_ends.
             (elems ends_labels ! i = elems ends_labels ! j) = connected both_ends i j"
    unfolding foreground_both_ends connected_both_ends using ends_labels_nth by simp
  from a b c d e f show ?thesis unfolding is_labelling_def by blast
qed

text \<open>
  C3, as the claim states it, fails. At the threshold 1 the fraction of masks marking a
  voxel never strictly exceeds the threshold, yet a voxel that all masks mark is
  foreground (the half-open comparison). And \<open>intersect_masks\<close> called as in the claim,
  with the default \<open>connected=True\<close>, keeps only the largest connected component: at
  threshold 0 two masks that mark the two ends of a row give one end, not their union.
\<close>

theorem intersect_masks_counterexample:
  "intersect_masks ends_labeller [unit_mask, unit_mask] 1 False = Inr unit_mask \<and>
   elems unit_mask ! 0 \<and>
   \<not> 1 < vote_fraction [unit_mask, unit_mask] 0 \<and>
   is_labelling (mask_or left_mask right_mask) ends_labels 2 \<and>
   intersect_masks_default ends_labeller [left_mask, right_mask] 0 = Inr left_mask \<and>
   left_mask \<noteq> mask_or left_mask right_mask"
proof -
  have 1: "intersect_masks ends_labeller [unit_mask, unit_mask] 1 False = Inr unit_mask"
    by code_simp
  have 2: "elems unit_mask ! 0" by (simp add: unit_mask_def)
  have 3: "\<not> 1 < vote_fraction [unit_mask, unit_mask] 0"
    by (simp add: vote_fraction_def vote_count_def unit_mask_def)
  have 4: "is_labelling (mask_or left_mask right_mask) ends_labels 2"
    unfolding mask_or_ends by (rule is_labelling_both_ends)
  have 5: "intersect_masks_default ends_labeller [left_mask, right_mask] 0 = Inr left_mask"
    by code_simp
  have 6: "left_mask \<noteq> mask_or left_mask right_mask"
    unfolding mask_or_ends by (simp add: left_mask_def both_ends_def)
  from 1 2 3 4 5 6 show ?thesis by blast
qed

theorem intersect_masks_threshold_witness:
  "[left_mask, right_mask] \<noteq> [] \<and>
   list_all (\<lambda>m. shape m = [1, 1, 3] \<and> length (elems m) = 3) [left_mask, right_mask] \<and>
   (0::rat) \<le> 1 / 2 \<and> (1 / 2 :: rat) \<le> 1 \<and>
   (\<exists>r. intersect_masks ends_labeller [left_mask, right_mask] (1 / 2) False = Inr r \<and>
        \<not> elems r ! 0 \<and> \<not> elems r ! 1 \<and> \<not> elems r ! 2) \<and>
   intersect_masks ends_labeller [left_mask, right_mask] 1 False = Inr no_voxel \<and>
   intersect_masks ends_labeller [left_mask, right_mask] 0 False = Inr both_ends"
proof -
  let ?ms = "[left_mask, right_mask]"
  let ?L = "ends_labeller"
  have h1: "?ms \<noteq> []" by simp
  have h2: "\<forall>m\<in>set ?ms. shape m = [1, 1, 3] \<and> length (elems m) = 3"
    by (simp add: left_mask_def right_mask_def)
  have h3: "(0::rat) \<le> 1 / 2" and h4: "(1 / 2 :: rat) \<le> 1" by simp_all
  have h5: "shape left_mask = shape right_mask"
    and h6: "length (elems left_mask) = length (elems right_mask)"
    by (simp_all add: left_mask_def right_mask_def)
  note t = intersect_masks_threshold [OF h1 h2 h3 h4 h5 h6, of ?L]
  from t obtain r where r: "intersect_masks ?L ?ms (1 / 2) False = Inr r"
    and rv: "\<forall>v<3. elems r ! v =
               (if (1 / 2 :: rat) < 1 then 1 / 2 < vote_fraction ?ms v
                else (\<forall>m\<in>set ?ms. elems m ! v))"
    by blast
  have vf: "\<not> 1 / 2 < vote_fraction ?ms 0" "\<not> 1 / 2 < vote_fraction ?ms 1"
    "\<not> 1 / 2 < vote_fraction ?ms 2"
    by (simp_all add: vote_fraction_def vote_count_def left_mask_def right_mask_def)
  have r0: "\<not> elems r ! 0" using rv [rule_format, of 0] vf(1) by simp
  have r1: "\<not> elems r ! 1" using rv [rule_format, of 1] vf(2) by simp
  have r2: "\<not> elems r ! 2" using rv [rule_format, of 2] vf(3) by simp
  from t have a: "intersect_masks ?L ?ms 1 False = Inr no_voxel"
    and o: "intersect_masks ?L ?ms 0 False = Inr both_ends"
    unfolding mask_and_ends mask_or_ends by blast+
  have la: "list_all (\<lambda>m. shape m = [1, 1, 3] \<and> length (elems m) = 3) ?ms"
    using h2 by (simp add: list_all_iff)
  from h1 la h3 h4 r r0 r1 r2 a o show ?thesis by blast
qed

end
